theory Spec2Isabelle
  imports Complex_Main
begin

section \<open>The board and its collaborators\<close>

text \<open>
  The repository holds the program twice: the sketch \<^verbatim>\<open>src/code/smart_home.ino\<close>
  (relay control over MQTT only) and the fuller listing in the \<^verbatim>\<open>Code\<close> section of
  \<^verbatim>\<open>src/README.md\<close> (relay control, DHT11 sampling, telemetry and the threshold rule).
  Functions of the sketch carry the suffix \<open>_ino\<close>, functions of the README listing the
  suffix \<open>_readme\<close>; what both share word for word is defined once.

  Everything the code does to the outside (pin writes, delays, WiFi and broker calls,
  sensor reads) is recorded, in program order, in the \<open>trace\<close> of the board, and so
  is what the outside does to the broker session (a delivered message, a lost session).
  The answers of the outside (WiFi status polls, results of \<^verbatim>\<open>client.connect\<close>, inbound
  messages, sensor values) are inputs of the model. Serial diagnostics are left out.
\<close>

datatype level = LOW | HIGH

datatype pin_mode = INPUT | OUTPUT

text \<open>
  A C \<^verbatim>\<open>float\<close>: not-a-number, the two infinities, or a finite value. The finite values
  are taken as reals; the program only compares them with the literals 16.0 and 24.0,
  and that comparison is exact.
\<close>

datatype float = NaN | MInf | Fin real | PInf

fun isnan :: "float \<Rightarrow> bool" where
  "isnan NaN = True"
| "isnan _ = False"

text \<open>\<^verbatim>\<open>a <= b\<close> and \<^verbatim>\<open>a >= b\<close> on floats: false as soon as one side is not-a-number.\<close>

fun float_le :: "float \<Rightarrow> float \<Rightarrow> bool" where
  "float_le NaN _ = False"
| "float_le _ NaN = False"
| "float_le MInf _ = True"
| "float_le _ PInf = True"
| "float_le (Fin x) (Fin y) = (x \<le> y)"
| "float_le (Fin x) MInf = False"
| "float_le PInf (Fin y) = False"
| "float_le PInf MInf = False"

definition float_ge :: "float \<Rightarrow> float \<Rightarrow> bool" where
  "float_ge a b = float_le b a"

datatype event =
    PinMode pin_mode
  | DigitalWrite level
  | Delay nat
  | WiFiBegin
  | WiFiStatus bool
  | SetServer
  | SetCallback
  | SerialBegin
  | DhtBegin
  | Connect bool
  | Subscribe string
  | SessionLost
  | Deliver string string char
  | ReadTemperature float
  | Publish string string bool

text \<open>
  The board: the level and mode of the relay pin (D1, the only pin the program writes),
  whether the last WiFi status poll said \<^verbatim>\<open>WL_CONNECTED\<close>, whether the broker session is
  open (\<^verbatim>\<open>client.connected()\<close>), the topics subscribed in the current session, and the
  trace of effects.
\<close>

record board =
  relay :: level
  relay_mode :: pin_mode
  wifi :: bool
  connected :: bool
  subscribed :: "string list"
  trace :: "event list"

text \<open>
  A call either returns (\<open>Inr\<close>, with the board it leaves) or is still inside a blocking
  loop when the answers given to it are used up (\<open>Inl (NoReturn b)\<close>, with the board \<open>b\<close>
  the loop stands at). A loop that is given only failures never returns; every board it
  passes through is the board of such a \<open>NoReturn\<close>.
\<close>

datatype fault = NoReturn board

definition board_of :: "fault + board \<Rightarrow> board" where
  "board_of r = (case r of Inl (NoReturn b) \<Rightarrow> b | Inr b \<Rightarrow> b)"

definition thenDo :: "fault + 'a \<Rightarrow> ('a \<Rightarrow> fault + 'b) \<Rightarrow> fault + 'b" where
  "thenDo r f = (case r of Inl e \<Rightarrow> Inl e | Inr x \<Rightarrow> f x)"

definition emit :: "event \<Rightarrow> board \<Rightarrow> board" where
  "emit e b = b\<lparr>trace := trace b @ [e]\<rparr>"

definition pinMode :: "pin_mode \<Rightarrow> board \<Rightarrow> board" where
  "pinMode m b = emit (PinMode m) (b\<lparr>relay_mode := m\<rparr>)"

definition digitalWrite :: "level \<Rightarrow> board \<Rightarrow> board" where
  "digitalWrite l b = emit (DigitalWrite l) (b\<lparr>relay := l\<rparr>)"

definition delay :: "nat \<Rightarrow> board \<Rightarrow> board" where
  "delay ms b = emit (Delay ms) b"

text \<open>
  The broker client (PubSubClient). \<^verbatim>\<open>connect\<close> opens a fresh session or fails;
  a fresh session has no subscriptions. \<^verbatim>\<open>subscribe\<close> and \<^verbatim>\<open>publish\<close> do nothing
  without an open session. \<open>session_lost\<close> is the outside closing an open session.
\<close>

definition client_connect :: "bool \<Rightarrow> board \<Rightarrow> board" where
  "client_connect ok b = emit (Connect ok) (b\<lparr>connected := ok, subscribed := []\<rparr>)"

definition client_subscribe :: "string \<Rightarrow> board \<Rightarrow> board" where
  "client_subscribe topic b =
     (if connected b then emit (Subscribe topic) (b\<lparr>subscribed := subscribed b @ [topic]\<rparr>)
      else b)"

definition client_publish :: "string \<Rightarrow> string \<Rightarrow> bool \<Rightarrow> board \<Rightarrow> board" where
  "client_publish topic payload retained b =
     (if connected b then emit (Publish topic payload retained) b else b)"

definition session_lost :: "board \<Rightarrow> board" where
  "session_lost b =
     (if connected b then emit SessionLost (b\<lparr>connected := False, subscribed := []\<rparr>) else b)"

text \<open>
  The logical state of the appliance as the source's comments read the pin:
  \<^verbatim>\<open>digitalWrite(RELAY_PIN, LOW);  // Relay ON\<close> and
  \<^verbatim>\<open>digitalWrite(RELAY_PIN, HIGH); // Relay OFF\<close>.
\<close>

datatype ActuatorState = On | Off

definition actuatorState :: "board \<Rightarrow> ActuatorState" where
  "actuatorState b = (case relay b of LOW \<Rightarrow> On | HIGH \<Rightarrow> Off)"

section \<open>Code shared by the sketch and the README listing\<close>

text \<open>
  \<^verbatim>\<open>setup_wifi\<close>: \<^verbatim>\<open>delay(10); WiFi.begin(ssid, password);
  while (WiFi.status() != WL_CONNECTED) delay(d);\<close> with \<open>d = 500\<close> in the sketch and
  \<open>d = 1000\<close> in the README listing. The list holds the answers of the successive
  status polls; the loop has not returned as long as no poll answers \<^verbatim>\<open>WL_CONNECTED\<close>.
\<close>

fun wait_connected :: "nat \<Rightarrow> bool list \<Rightarrow> board \<Rightarrow> fault + board" where
  "wait_connected d [] b = Inl (NoReturn b)"
| "wait_connected d (s # ss) b =
     (if s then Inr (emit (WiFiStatus True) (b\<lparr>wifi := True\<rparr>))
      else wait_connected d ss (delay d (emit (WiFiStatus False) (b\<lparr>wifi := False\<rparr>))))"

definition setup_wifi :: "nat \<Rightarrow> bool list \<Rightarrow> board \<Rightarrow> fault + board" where
  "setup_wifi d polls b = wait_connected d polls (emit WiFiBegin (delay 10 b))"

text \<open>
  \<^verbatim>\<open>reconnect\<close>: \<^verbatim>\<open>while (!client.connected()) { if (client.connect("ESP8266Client"))
  client.subscribe(topic); else delay(5000); }\<close>. The list holds the results of the
  successive \<^verbatim>\<open>client.connect\<close> calls.
\<close>

fun reconnect :: "string \<Rightarrow> bool list \<Rightarrow> board \<Rightarrow> fault + board" where
  "reconnect topic [] b = (if connected b then Inr b else Inl (NoReturn b))"
| "reconnect topic (c # cs) b =
     (if connected b then Inr b
      else if c then reconnect topic cs (client_subscribe topic (client_connect True b))
      else reconnect topic cs (delay 5000 (client_connect False b)))"

text \<open>
  An inbound message as the callback receives it: the topic, the \<^verbatim>\<open>length\<close> bytes of
  the payload, and the byte that lies in memory right behind the payload (what
  \<^verbatim>\<open>payload[length]\<close> reads). The last one matters to code that reads \<^verbatim>\<open>payload[0]\<close>
  without looking at \<^verbatim>\<open>length\<close>: for a message without payload that is this byte.

  \<^verbatim>\<open>client.loop()\<close>: with an open session, hands each inbound message of this call to
  the registered callback; without one it does nothing.
\<close>

fun client_loop ::
  "(string \<Rightarrow> string \<Rightarrow> char \<Rightarrow> board \<Rightarrow> board) \<Rightarrow> (string \<times> string \<times> char) list
   \<Rightarrow> board \<Rightarrow> board" where
  "client_loop cb [] b = b"
| "client_loop cb ((topic, payload, behind) # ms) b =
     (if connected b
      then client_loop cb ms (cb topic payload behind (emit (Deliver topic payload behind) b))
      else b)"

text \<open>
  What one pass of \<^verbatim>\<open>loop()\<close> receives from the outside: whether the broker session
  was lost since the previous pass, the results of the \<^verbatim>\<open>client.connect\<close> calls, the
  inbound messages, and (README listing only) the value of \<^verbatim>\<open>dht.readTemperature()\<close>.
\<close>

record tick =
  lost :: bool
  connects :: "bool list"
  inbound :: "(string \<times> string \<times> char) list"
  temperature :: float

fun run_ticks :: "(tick \<Rightarrow> board \<Rightarrow> fault + board) \<Rightarrow> tick list \<Rightarrow> board \<Rightarrow> fault + board" where
  "run_ticks lp [] b = Inr b"
| "run_ticks lp (i # rest) b =
     thenDo (lp i (if lost i then session_lost b else b)) (run_ticks lp rest)"

text \<open>The board at power-on: nothing joined, nothing open; the pin level is not known.\<close>

definition power_on :: "level \<Rightarrow> board" where
  "power_on l =
     \<lparr>relay = l, relay_mode = INPUT, wifi = False, connected = False, subscribed = [],
      trace = []\<rparr>"

section \<open>The sketch: src/code/smart_home.ino\<close>

text \<open>
  \<^verbatim>\<open>callback\<close> (lines 24-30): \<^verbatim>\<open>if ((char)payload[0] == '1') digitalWrite(relayPin, LOW);
  else digitalWrite(relayPin, HIGH);\<close>. The topic and the length are not looked at:
  \<^verbatim>\<open>payload[0]\<close> is the first byte of the payload, or, for a message without payload,
  the byte behind it. The callback always writes the pin and returns.
\<close>

definition callback_ino :: "string \<Rightarrow> string \<Rightarrow> char \<Rightarrow> board \<Rightarrow> board" where
  "callback_ino topic payload behind b =
     (if hd (payload @ [behind]) = CHR ''1'' then digitalWrite LOW b else digitalWrite HIGH b)"

definition reconnect_ino :: "bool list \<Rightarrow> board \<Rightarrow> fault + board" where
  "reconnect_ino cs b = reconnect ''home/room1/light1'' cs b"

text \<open>\<^verbatim>\<open>setup\<close> (lines 42-48).\<close>

definition setup_ino :: "bool list \<Rightarrow> board \<Rightarrow> fault + board" where
  "setup_ino polls b =
     thenDo (setup_wifi 500 polls (digitalWrite HIGH (pinMode OUTPUT b)))
       (\<lambda>b1. Inr (emit SetCallback (emit SetServer b1)))"

text \<open>\<^verbatim>\<open>loop\<close> (lines 50-55).\<close>

definition loop_ino :: "tick \<Rightarrow> board \<Rightarrow> fault + board" where
  "loop_ino i b =
     thenDo (if \<not> connected b then reconnect_ino (connects i) b else Inr b)
       (\<lambda>b1. Inr (client_loop callback_ino (inbound i) b1))"

definition program_ino :: "bool list \<Rightarrow> tick list \<Rightarrow> board \<Rightarrow> fault + board" where
  "program_ino polls ticks b = thenDo (setup_ino polls b) (run_ticks loop_ino ticks)"

section \<open>The README listing: src/README.md, section Code\<close>

definition light_topic :: string where
  "light_topic = ''home/room1/light''"

definition temp_topic :: string where
  "temp_topic = ''home/room1/temperature''"

text \<open>
  \<^verbatim>\<open>callback\<close> (README lines 190-203): the payload is copied into a String of
  \<^verbatim>\<open>length\<close> characters and compared with "ON" and "OFF", on the light topic only.
  The comparison of Strings is taken as equality of their characters. The byte behind
  the payload is never read.
\<close>

definition callback_readme :: "string \<Rightarrow> string \<Rightarrow> char \<Rightarrow> board \<Rightarrow> board" where
  "callback_readme topic payload behind b =
     (if topic = light_topic then
        (if payload = ''ON'' then digitalWrite LOW b
         else if payload = ''OFF'' then digitalWrite HIGH b
         else b)
      else b)"

definition reconnect_readme :: "bool list \<Rightarrow> board \<Rightarrow> fault + board" where
  "reconnect_readme cs b = reconnect light_topic cs b"

text \<open>\<^verbatim>\<open>setup\<close> (README lines 219-228).\<close>

definition setup_readme :: "bool list \<Rightarrow> board \<Rightarrow> fault + board" where
  "setup_readme polls b =
     thenDo (setup_wifi 1000 polls (emit SerialBegin (digitalWrite HIGH (pinMode OUTPUT b))))
       (\<lambda>b1. Inr (emit DhtBegin (emit SetCallback (emit SetServer b1))))"

text \<open>
  The blocks of \<^verbatim>\<open>loop\<close> (README lines 230-250), in the order of the listing.
  \<open>connectivity\<close> is lines 231-233, \<open>draining\<close> line 234, \<open>sampling\<close> line 236,
  \<open>telemetry\<close> lines 237-241, \<open>automation\<close> lines 243-247; line 249 is
  \<^verbatim>\<open>delay(10000)\<close>. \<open>String\<close> stands for Arduino's \<^verbatim>\<open>String(float)\<close>, whose code is
  not part of the repository; \<open>String_float\<close> below models it.
\<close>

definition connectivity :: "tick \<Rightarrow> board \<Rightarrow> fault + board" where
  "connectivity i b = (if \<not> connected b then reconnect_readme (connects i) b else Inr b)"

definition draining :: "tick \<Rightarrow> board \<Rightarrow> board" where
  "draining i b = client_loop callback_readme (inbound i) b"

definition sampling :: "float \<Rightarrow> board \<Rightarrow> board" where
  "sampling temp b = emit (ReadTemperature temp) b"

definition telemetry :: "(float \<Rightarrow> string) \<Rightarrow> float \<Rightarrow> board \<Rightarrow> board" where
  "telemetry String temp b =
     (if \<not> isnan temp then client_publish temp_topic (String temp) True b else b)"

definition automation :: "float \<Rightarrow> board \<Rightarrow> board" where
  "automation temp b =
     (if float_le temp (Fin 16) then digitalWrite LOW b
      else if float_ge temp (Fin 24) then digitalWrite HIGH b
      else b)"

definition loop_readme :: "(float \<Rightarrow> string) \<Rightarrow> tick \<Rightarrow> board \<Rightarrow> fault + board" where
  "loop_readme String i b =
     thenDo (connectivity i b) (\<lambda>b1.
       Inr (delay 10000
             (automation (temperature i)
               (telemetry String (temperature i)
                 (sampling (temperature i) (draining i b1))))))"

definition program_readme ::
  "(float \<Rightarrow> string) \<Rightarrow> bool list \<Rightarrow> tick list \<Rightarrow> board \<Rightarrow> fault + board" where
  "program_readme String polls ticks b =
     thenDo (setup_readme polls b) (run_ticks (loop_readme String) ticks)"

text \<open>
  Modelled from the spec: the code of Arduino's \<^verbatim>\<open>String(float)\<close> is not in the
  repository; the spec says of the telemetry payload that it is "the sensor value
  formatted as a decimal string". A finite value is written with a sign if it is
  negative, its integer digits, a point and two decimals, rounded half up (Arduino's
  default of two decimal places); the values that are no numbers are written as Arduino
  writes them. The DHT driver hands back a finite value or not-a-number.
\<close>

definition digit :: "nat \<Rightarrow> char" where
  "digit n = ''0123456789'' ! (n mod 10)"

fun digits :: "nat \<Rightarrow> string" where
  "digits n = (if n < 10 then [digit n] else digits (n div 10) @ [digit n])"

definition String_float :: "float \<Rightarrow> string" where
  "String_float t =
     (case t of
        NaN \<Rightarrow> ''nan''
      | MInf \<Rightarrow> ''-inf''
      | PInf \<Rightarrow> ''inf''
      | Fin x \<Rightarrow>
          (let n = nat \<lfloor>\<bar>x\<bar> * 100 + 1 / 2\<rfloor>
           in (if x < 0 then ''-'' else [])
              @ digits (n div 100) @ ''.'' @ [digit (n div 10), digit n]))"

section \<open>Observations on boards and traces\<close>

text \<open>The level of the most recent pin write in a trace, if there is one.\<close>

fun last_write :: "event list \<Rightarrow> level option" where
  "last_write [] = None"
| "last_write (DigitalWrite l # es) = (case last_write es of None \<Rightarrow> Some l | Some l' \<Rightarrow> Some l')"
| "last_write (e # es) = last_write es"

text \<open>The messages a trace publishes: topic, payload, retained flag.\<close>

fun publishes :: "event list \<Rightarrow> (string \<times> string \<times> bool) list" where
  "publishes [] = []"
| "publishes (Publish t p r # es) = (t, p, r) # publishes es"
| "publishes (e # es) = publishes es"

text \<open>
  The kinds of events: what \<^verbatim>\<open>reconnect\<close> does, what \<^verbatim>\<open>client.loop()\<close> with the callback
  does, what \<^verbatim>\<open>setup_wifi\<close> does, and what \<^verbatim>\<open>setup\<close> does after it has initialised the
  pin.
\<close>

fun is_connectivity :: "event \<Rightarrow> bool" where
  "is_connectivity (Connect ok) = True"
| "is_connectivity (Subscribe t) = True"
| "is_connectivity (Delay ms) = (ms = 5000)"
| "is_connectivity e = False"

fun is_draining :: "event \<Rightarrow> bool" where
  "is_draining (Deliver t p z) = True"
| "is_draining (DigitalWrite l) = True"
| "is_draining e = False"

fun is_joining :: "event \<Rightarrow> bool" where
  "is_joining WiFiBegin = True"
| "is_joining (WiFiStatus s) = True"
| "is_joining (Delay ms) = True"
| "is_joining e = False"

fun is_startup :: "event \<Rightarrow> bool" where
  "is_startup (DigitalWrite l) = False"
| "is_startup (Connect ok) = False"
| "is_startup (Subscribe t) = False"
| "is_startup SessionLost = False"
| "is_startup (Deliver t p z) = False"
| "is_startup (ReadTemperature x) = False"
| "is_startup (Publish t p r) = False"
| "is_startup e = True"

text \<open>
  A call took \<open>b\<close> to \<open>b'\<close> with the events \<open>es\<close>: the trace grew by \<open>es\<close>, and the pin
  holds the level of the last write among them, or its old level.
\<close>

definition effect :: "board \<Rightarrow> event list \<Rightarrow> board \<Rightarrow> bool" where
  "effect b es b' \<longleftrightarrow>
     trace b' = trace b @ es \<and>
     relay b' = (case last_write es of None \<Rightarrow> relay b | Some l \<Rightarrow> l)"

text \<open>\<open>y\<close> occurs in the trace after the first occurrence of \<open>x\<close>.\<close>

definition occurs_before :: "event \<Rightarrow> event \<Rightarrow> event list \<Rightarrow> bool" where
  "occurs_before x y tr \<longleftrightarrow> y \<in> set (dropWhile (\<lambda>e. e \<noteq> x) tr)"

text \<open>
  The polarity of the relay line as the source's comments give it: On is LOW, Off is
  HIGH.
\<close>

definition signal :: "ActuatorState \<Rightarrow> level" where
  "signal s = (case s of On \<Rightarrow> LOW | Off \<Rightarrow> HIGH)"

text \<open>
  The logical decisions of the program, read off the events that cause them. In both
  programs \<^verbatim>\<open>setup\<close> decides Off when it takes the pin ("Relay initially off"). In the
  sketch every delivered message decides: On if \<^verbatim>\<open>payload[0]\<close> is the character 1, Off
  otherwise. In the README listing a message on the light topic decides On for "ON" and
  Off for "OFF", and a sample decides On at or below 16.0 ("AC ON") and Off at or above
  24.0 ("AC OFF").
\<close>

fun decision_ino :: "event \<Rightarrow> ActuatorState option" where
  "decision_ino (PinMode m) = (if m = OUTPUT then Some Off else None)"
| "decision_ino (Deliver t p z) = Some (if hd (p @ [z]) = CHR ''1'' then On else Off)"
| "decision_ino e = None"

fun decision_readme :: "event \<Rightarrow> ActuatorState option" where
  "decision_readme (PinMode m) = (if m = OUTPUT then Some Off else None)"
| "decision_readme (Deliver t p z) =
     (if t = ''home/room1/light'' \<and> p = ''ON'' then Some On
      else if t = ''home/room1/light'' \<and> p = ''OFF'' then Some Off
      else None)"
| "decision_readme (ReadTemperature x) =
     (if float_le x (Fin 16) then Some On
      else if float_ge x (Fin 24) then Some Off
      else None)"
| "decision_readme e = None"

text \<open>
  The polarity invariant as a check that runs along a trace. The state is the decision
  that waits for its write (\<open>Some None\<close>: none waits); \<open>None\<close> is a violation. A write
  must carry out the waiting decision with the level \<open>signal\<close> gives it; a decision
  must find no other decision waiting.
\<close>

fun polarity_step ::
  "(event \<Rightarrow> ActuatorState option) \<Rightarrow> ActuatorState option option \<Rightarrow> event
   \<Rightarrow> ActuatorState option option" where
  "polarity_step dec None e = None"
| "polarity_step dec (Some waiting) (DigitalWrite l) =
     (case waiting of
        None \<Rightarrow> None
      | Some d \<Rightarrow> if l = signal d then Some None else None)"
| "polarity_step dec (Some waiting) e =
     (case dec e of
        None \<Rightarrow> Some waiting
      | Some d \<Rightarrow> (case waiting of None \<Rightarrow> Some (Some d) | Some d' \<Rightarrow> None))"

definition polarity_run :: "(event \<Rightarrow> ActuatorState option) \<Rightarrow> event list \<Rightarrow> ActuatorState option option" where
  "polarity_run dec tr = foldl (polarity_step dec) (Some None) tr"

text \<open>The most recent decision of a trace.\<close>

definition last_decision :: "(event \<Rightarrow> ActuatorState option) \<Rightarrow> event list \<Rightarrow> ActuatorState option" where
  "last_decision dec tr = foldl (\<lambda>acc e. case dec e of None \<Rightarrow> acc | Some d \<Rightarrow> Some d) None tr"

text \<open>
  The connectivity state machine in the spec's words, as a check that runs along a
  trace (\<open>None\<close> is a violation). The join is issued from Offline; a failed poll leaves
  the state before NetworkJoined; a session can only be opened from NetworkJoined, and a
  failed attempt stays there; an opened session is Ready only once the topic has been
  subscribed in it; a lost session falls back to NetworkJoined; messages are delivered
  and published in Ready only.
\<close>

datatype ConnectivityState = Offline | JoiningNetwork | NetworkJoined | ConnectingBroker | Ready

fun spec_connectivity_step ::
  "string \<Rightarrow> ConnectivityState option \<Rightarrow> event \<Rightarrow> ConnectivityState option" where
  "spec_connectivity_step topic None e = None"
| "spec_connectivity_step topic (Some s) WiFiBegin =
     (if s = Offline then Some JoiningNetwork else None)"
| "spec_connectivity_step topic (Some s) (WiFiStatus ok) =
     (if s = JoiningNetwork then Some (if ok then NetworkJoined else JoiningNetwork) else None)"
| "spec_connectivity_step topic (Some s) (Connect ok) =
     (if s = NetworkJoined then Some (if ok then ConnectingBroker else NetworkJoined) else None)"
| "spec_connectivity_step topic (Some s) (Subscribe t) =
     (if s = ConnectingBroker \<and> t = topic then Some Ready else None)"
| "spec_connectivity_step topic (Some s) SessionLost =
     (if s = Ready then Some NetworkJoined else None)"
| "spec_connectivity_step topic (Some s) (Deliver t p z) =
     (if s = Ready then Some Ready else None)"
| "spec_connectivity_step topic (Some s) (Publish t p r) =
     (if s = Ready then Some Ready else None)"
| "spec_connectivity_step topic (Some s) e = Some s"

definition spec_connectivity_run :: "string \<Rightarrow> event list \<Rightarrow> ConnectivityState option" where
  "spec_connectivity_run topic tr = foldl (spec_connectivity_step topic) (Some Offline) tr"

text \<open>
  The connectivity state of a board as the code can read it: \<^verbatim>\<open>WiFi.status()\<close>, then
  \<^verbatim>\<open>client.connected()\<close>.
\<close>

definition connectivityState :: "board \<Rightarrow> ConnectivityState" where
  "connectivityState b =
     (if \<not> wifi b then JoiningNetwork else if \<not> connected b then NetworkJoined else Ready)"

text \<open>
  A decimal string: an optional minus sign, at least one digit, a point, and at least
  one digit.
\<close>

definition is_digit :: "char \<Rightarrow> bool" where
  "is_digit c \<longleftrightarrow> c \<in> set ''0123456789''"

definition is_decimal :: "string \<Rightarrow> bool" where
  "is_decimal s \<longleftrightarrow>
     (let u = (if take 1 s = ''-'' then drop 1 s else s);
          i = takeWhile is_digit u;
          f = dropWhile is_digit u
      in i \<noteq> [] \<and> take 1 f = ''.'' \<and> drop 1 f \<noteq> [] \<and> list_all is_digit (drop 1 f))"

text \<open>The time a trace spends in \<^verbatim>\<open>delay\<close>, in milliseconds.\<close>

fun elapsed :: "event list \<Rightarrow> nat" where
  "elapsed [] = 0"
| "elapsed (Delay ms # es) = ms + elapsed es"
| "elapsed (e # es) = elapsed es"


text \<open>
  The invariants of the runs: the polarity check accepts the trace with no decision
  waiting and the appliance state is the most recent decision; the connectivity check
  accepts the trace and stands where the board's flags say, before and after the join.
\<close>

definition polarity_inv :: "(event \<Rightarrow> ActuatorState option) \<Rightarrow> board \<Rightarrow> bool" where
  "polarity_inv dec b \<longleftrightarrow>
     relay_mode b = OUTPUT \<and> polarity_run dec (trace b) = Some None
     \<and> last_decision dec (trace b) = Some (actuatorState b)"

definition joining_inv :: "string \<Rightarrow> board \<Rightarrow> bool" where
  "joining_inv topic b \<longleftrightarrow>
     \<not> wifi b \<and> \<not> connected b \<and> subscribed b = []
     \<and> spec_connectivity_run topic (trace b) = Some JoiningNetwork"

definition session_inv :: "string \<Rightarrow> board \<Rightarrow> bool" where
  "session_inv topic b \<longleftrightarrow>
     wifi b \<and> subscribed b = (if connected b then [topic] else [])
     \<and> spec_connectivity_run topic (trace b) = Some (if connected b then Ready else NetworkJoined)"

section \<open>Basic facts\<close>

declare digits.simps [simp del]

lemma thenDo_Inr [simp]: "thenDo (Inr x) f = f x"
  by (simp add: thenDo_def)

lemma thenDo_Inl [simp]: "thenDo (Inl e) f = Inl e"
  by (simp add: thenDo_def)

lemma thenDo_eq_Inr: "thenDo r f = Inr y \<longleftrightarrow> (\<exists>x. r = Inr x \<and> f x = Inr y)"
  by (cases r) simp_all

lemma board_of_simps [simp]: "board_of (Inr b) = b" "board_of (Inl (NoReturn b)) = b"
  by (simp_all add: board_of_def)

lemma board_of_thenDo:
  "board_of (thenDo r f) = (case r of Inl e \<Rightarrow> board_of (Inl e) | Inr b \<Rightarrow> board_of (f b))"
  by (cases r) simp_all

lemma outcome_cases:
  obtains b where "r = Inr b" | b where "r = Inl (NoReturn b)"
proof (cases r)
  case (Inl e)
  then show ?thesis using that(2) by (cases e) simp
next
  case (Inr b)
  then show ?thesis using that(1) by simp
qed

lemmas board_ops = emit_def pinMode_def digitalWrite_def delay_def client_connect_def
  client_subscribe_def client_publish_def session_lost_def

lemma actuatorState_digitalWrite [simp]:
  "actuatorState (digitalWrite LOW b) = On" "actuatorState (digitalWrite HIGH b) = Off"
  by (simp_all add: actuatorState_def digitalWrite_def emit_def)

lemma signal_actuatorState: "signal (actuatorState b) = relay b"
  by (cases "relay b") (simp_all add: signal_def actuatorState_def)



lemma isnan_iff: "isnan t \<longleftrightarrow> t = NaN"
  by (cases t) simp_all

section \<open>Traces\<close>

lemma last_write_append:
  "last_write (xs @ ys) = (case last_write ys of None \<Rightarrow> last_write xs | Some l \<Rightarrow> Some l)"
  by (induction xs rule: last_write.induct) (auto split: option.splits)

lemma publishes_append: "publishes (xs @ ys) = publishes xs @ publishes ys"
  by (induction xs rule: publishes.induct) auto

lemma elapsed_append: "elapsed (xs @ ys) = elapsed xs + elapsed ys"
  by (induction xs rule: elapsed.induct) auto

lemma connectivity_events:
  "list_all is_connectivity es \<Longrightarrow> last_write es = None \<and> publishes es = []"
  by (induction es rule: last_write.induct) auto

lemma draining_events: "list_all is_draining es \<Longrightarrow> publishes es = []"
  by (induction es rule: publishes.induct) auto

lemma joining_startup: "list_all is_joining es \<Longrightarrow> list_all is_startup es"
  by (induction es rule: last_write.induct) auto

lemma startup_events: "list_all is_startup es \<Longrightarrow> last_write es = None \<and> publishes es = []"
  by (induction es rule: last_write.induct) auto

lemma effect_refl: "effect b [] b"
  by (simp add: effect_def)

lemma effect_trans: "effect b es b1 \<Longrightarrow> effect b1 fs b2 \<Longrightarrow> effect b (es @ fs) b2"
  by (auto simp: effect_def last_write_append split: option.splits)

lemma effect_emit: "last_write [e] = None \<Longrightarrow> effect b [e] (emit e b)"
  by (simp add: effect_def emit_def)

lemma effect_digitalWrite: "effect b [DigitalWrite l] (digitalWrite l b)"
  by (simp add: effect_def digitalWrite_def emit_def)

lemma effect_trace: "effect b es b' \<Longrightarrow> trace b' = trace b @ es"
  by (simp add: effect_def)

section \<open>The blocking loops and the broker client\<close>

text \<open>
  What holds of the board before a blocking loop and is kept by each of its steps holds
  of every board the loop reaches, whether it returns there or is still waiting.
\<close>

lemma reconnect_invariant:
  assumes ok: "\<And>b. I b \<Longrightarrow> \<not> connected b \<Longrightarrow> I (client_subscribe topic (client_connect True b))"
    and failed: "\<And>b. I b \<Longrightarrow> \<not> connected b \<Longrightarrow> I (delay 5000 (client_connect False b))"
  shows "I b \<Longrightarrow> I (board_of (reconnect topic cs b))"
proof (induction cs arbitrary: b)
  case Nil
  then show ?case by simp
next
  case (Cons c cs)
  show ?case
  proof (cases "connected b")
    case True
    with Cons.prems show ?thesis by simp
  next
    case False
    show ?thesis
    proof (cases c)
      case True
      from ok [OF Cons.prems False] have "I (client_subscribe topic (client_connect True b))" .
      from Cons.IH [OF this] False True show ?thesis by simp
    next
      case c: False
      from failed [OF Cons.prems False] have "I (delay 5000 (client_connect False b))" .
      from Cons.IH [OF this] False c show ?thesis by simp
    qed
  qed
qed

lemma wait_connected_invariant:
  assumes ok: "\<And>b. I b \<Longrightarrow> I (emit (WiFiStatus True) (b\<lparr>wifi := True\<rparr>))"
    and failed: "\<And>b. I b \<Longrightarrow> I (delay d (emit (WiFiStatus False) (b\<lparr>wifi := False\<rparr>)))"
  shows "I b \<Longrightarrow> I (board_of (wait_connected d polls b))"
proof (induction polls arbitrary: b)
  case Nil
  then show ?case by simp
next
  case (Cons s ss)
  show ?case
  proof (cases s)
    case True
    with ok [OF Cons.prems] show ?thesis by simp
  next
    case False
    from failed [OF Cons.prems] have "I (delay d (emit (WiFiStatus False) (b\<lparr>wifi := False\<rparr>)))" .
    from Cons.IH [OF this] False show ?thesis by simp
  qed
qed

lemma client_loop_invariant:
  assumes step: "\<And>t p z b. I b \<Longrightarrow> connected b \<Longrightarrow> I (cb t p z (emit (Deliver t p z) b))"
  shows "I b \<Longrightarrow> I (client_loop cb ms b)"
proof (induction ms arbitrary: b)
  case Nil
  then show ?case by simp
next
  case (Cons m ms)
  obtain t p z where m: "m = (t, p, z)" by (cases m)
  show ?case
  proof (cases "connected b")
    case False
    with Cons.prems m show ?thesis by simp
  next
    case True
    from step [OF Cons.prems True] have "I (cb t p z (emit (Deliver t p z) b))" .
    from Cons.IH [OF this] True m show ?thesis by simp
  qed
qed

lemma run_ticks_invariant:
  assumes step: "\<And>i b. I b \<Longrightarrow> I (board_of (lp i b))"
    and lost: "\<And>b. I b \<Longrightarrow> I (session_lost b)"
  shows "I b \<Longrightarrow> I (board_of (run_ticks lp ticks b))"
proof (induction ticks arbitrary: b)
  case Nil
  then show ?case by simp
next
  case (Cons i rest)
  let ?b0 = "if lost i then session_lost b else b"
  from Cons.prems have b0: "I ?b0" by (simp add: lost)
  show ?case
  proof (cases "lp i ?b0" rule: outcome_cases)
    case (1 b1)
    with step [OF b0, of i] have "I b1" by simp
    from Cons.IH [OF this] 1 show ?thesis by simp
  next
    case (2 b1)
    with step [OF b0, of i] have "I b1" by simp
    with 2 show ?thesis by simp
  qed
qed

text \<open>When the loops return.\<close>

lemma reconnect_connected: "connected b \<Longrightarrow> reconnect topic cs b = Inr b"
  by (cases cs) simp_all

lemma reconnect_returns_iff:
  "(\<exists>b'. reconnect topic cs b = Inr b') \<longleftrightarrow> connected b \<or> True \<in> set cs"
proof (induction cs arbitrary: b)
  case Nil
  show ?case by simp
next
  case (Cons c cs)
  show ?case
  proof (cases "connected b \<or> c")
    case True
    then show ?thesis by (auto simp: reconnect_connected board_ops)
  next
    case False
    have "\<not> connected (delay 5000 (client_connect False b))" by (simp add: board_ops)
    with Cons [of "delay 5000 (client_connect False b)"] False show ?thesis by simp
  qed
qed

lemma reconnect_returned_connected: "reconnect topic cs b = Inr b' \<Longrightarrow> connected b'"
proof (induction cs arbitrary: b)
  case Nil
  then show ?case by (simp split: if_splits)
next
  case (Cons c cs)
  then show ?case by (auto simp: board_ops reconnect_connected split: if_splits)
qed

lemma wait_connected_returns_iff:
  "(\<exists>b'. wait_connected d polls b = Inr b') \<longleftrightarrow> True \<in> set polls"
  by (induction polls arbitrary: b) auto

lemma setup_wifi_returns_iff: "(\<exists>b'. setup_wifi d polls b = Inr b') \<longleftrightarrow> True \<in> set polls"
  by (simp add: setup_wifi_def wait_connected_returns_iff)

text \<open>What the loops add to the trace, and what they leave alone.\<close>

lemma effect_step:
  assumes "\<exists>es. effect b0 es b \<and> list_all P es" and "effect b fs b'" and "list_all P fs"
  shows "\<exists>es. effect b0 es b' \<and> list_all P es"
proof -
  from assms(1) obtain es where "effect b0 es b" "list_all P es" by blast
  with assms(2,3) have "effect b0 (es @ fs) b'" "list_all P (es @ fs)"
    by (simp_all add: effect_trans)
  then show ?thesis by blast
qed

lemma effect_start: "\<exists>es. effect b es b \<and> list_all P es"
  using effect_refl [of b] by (intro exI [of _ "[]"]) simp

lemma reconnect_effect:
  "\<exists>es. effect b es (board_of (reconnect topic cs b)) \<and> list_all is_connectivity es"
proof (rule reconnect_invariant [where I = "\<lambda>b'. \<exists>es. effect b es b' \<and> list_all is_connectivity es"])
  fix b1 assume a: "\<exists>es. effect b es b1 \<and> list_all is_connectivity es" and n: "\<not> connected b1"
  have "effect b1 [Connect True, Subscribe topic] (client_subscribe topic (client_connect True b1))"
    by (simp add: effect_def board_ops)
  from effect_step [OF a this]
  show "\<exists>es. effect b es (client_subscribe topic (client_connect True b1))
          \<and> list_all is_connectivity es" by simp
  have "effect b1 [Connect False, Delay 5000] (delay 5000 (client_connect False b1))"
    by (simp add: effect_def board_ops)
  from effect_step [OF a this]
  show "\<exists>es. effect b es (delay 5000 (client_connect False b1)) \<and> list_all is_connectivity es"
    by simp
next
  show "\<exists>es. effect b es b \<and> list_all is_connectivity es" by (rule effect_start)
qed

lemma reconnect_fields:
  "wifi (board_of (reconnect topic cs b)) = wifi b
   \<and> relay_mode (board_of (reconnect topic cs b)) = relay_mode b
   \<and> relay (board_of (reconnect topic cs b)) = relay b"
  by (rule reconnect_invariant
      [where I = "\<lambda>b'. wifi b' = wifi b \<and> relay_mode b' = relay_mode b \<and> relay b' = relay b"])
    (simp_all add: board_ops)

lemma callback_ino_cases: "callback_ino t p z b = digitalWrite LOW b \<or> callback_ino t p z b = digitalWrite HIGH b"
  by (simp add: callback_ino_def)

lemma callback_readme_cases:
  "callback_readme t p z b = b \<or> callback_readme t p z b = digitalWrite LOW b
   \<or> callback_readme t p z b = digitalWrite HIGH b"
  by (simp add: callback_readme_def)

lemma client_loop_effect:
  assumes cb: "\<And>t p z b. cb t p z b = b \<or> (\<exists>l. cb t p z b = digitalWrite l b)"
  shows "\<exists>es. effect b es (client_loop cb ms b) \<and> list_all is_draining es"
proof (rule client_loop_invariant [where I = "\<lambda>b'. \<exists>es. effect b es b' \<and> list_all is_draining es"])
  fix t p z b1 assume a: "\<exists>es. effect b es b1 \<and> list_all is_draining es"
  let ?b0 = "emit (Deliver t p z) b1"
  have "effect b1 [Deliver t p z] ?b0" by (simp add: effect_emit)
  from effect_step [OF a this] have a0: "\<exists>es. effect b es ?b0 \<and> list_all is_draining es"
    by simp
  from cb [of t p z ?b0] show "\<exists>es. effect b es (cb t p z ?b0) \<and> list_all is_draining es"
  proof
    assume "cb t p z ?b0 = ?b0"
    with a0 show ?thesis by simp
  next
    assume "\<exists>l. cb t p z ?b0 = digitalWrite l ?b0"
    then obtain l where l: "cb t p z ?b0 = digitalWrite l ?b0" ..
    have "effect ?b0 [DigitalWrite l] (digitalWrite l ?b0)" by (rule effect_digitalWrite)
    from effect_step [OF a0 this] l show ?thesis by simp
  qed
next
  show "\<exists>es. effect b es b \<and> list_all is_draining es" by (rule effect_start)
qed

lemma client_loop_fields:
  assumes cb: "\<And>t p z b. cb t p z b = b \<or> (\<exists>l. cb t p z b = digitalWrite l b)"
  shows "connected (client_loop cb ms b) = connected b \<and> wifi (client_loop cb ms b) = wifi b
     \<and> relay_mode (client_loop cb ms b) = relay_mode b
     \<and> subscribed (client_loop cb ms b) = subscribed b"
proof (rule client_loop_invariant
    [where I = "\<lambda>b'. connected b' = connected b \<and> wifi b' = wifi b
       \<and> relay_mode b' = relay_mode b \<and> subscribed b' = subscribed b"])
  fix t p z and b1 :: board
  assume "connected b1 = connected b \<and> wifi b1 = wifi b
       \<and> relay_mode b1 = relay_mode b \<and> subscribed b1 = subscribed b"
  with cb [of t p z "emit (Deliver t p z) b1"]
  show "connected (cb t p z (emit (Deliver t p z) b1)) = connected b
      \<and> wifi (cb t p z (emit (Deliver t p z) b1)) = wifi b
      \<and> relay_mode (cb t p z (emit (Deliver t p z) b1)) = relay_mode b
      \<and> subscribed (cb t p z (emit (Deliver t p z) b1)) = subscribed b"
    by (auto simp: board_ops)
qed simp

lemma draining_effect: "\<exists>es. effect b es (draining i b) \<and> list_all is_draining es"
  unfolding draining_def using callback_readme_cases by (intro client_loop_effect) blast

lemma draining_fields:
  "connected (draining i b) = connected b \<and> wifi (draining i b) = wifi b
     \<and> relay_mode (draining i b) = relay_mode b \<and> subscribed (draining i b) = subscribed b"
  unfolding draining_def using callback_readme_cases by (intro client_loop_fields) blast

lemma drain_ino_effect:
  "\<exists>es. effect b es (client_loop callback_ino ms b) \<and> list_all is_draining es"
  using callback_ino_cases by (intro client_loop_effect) blast

lemma drain_ino_fields:
  "connected (client_loop callback_ino ms b) = connected b
     \<and> wifi (client_loop callback_ino ms b) = wifi b
     \<and> relay_mode (client_loop callback_ino ms b) = relay_mode b
     \<and> subscribed (client_loop callback_ino ms b) = subscribed b"
  using callback_ino_cases by (intro client_loop_fields) blast

lemma setup_wifi_effect:
  "\<exists>es. effect b es (board_of (setup_wifi d polls b)) \<and> list_all is_joining es"
proof -
  let ?b0 = "emit WiFiBegin (delay 10 b)"
  have "effect b [Delay 10, WiFiBegin] ?b0" by (simp add: effect_def board_ops)
  from effect_step [OF effect_start this]
  have start: "\<exists>es. effect b es ?b0 \<and> list_all is_joining es" by simp
  have "\<exists>es. effect b es (board_of (wait_connected d polls ?b0)) \<and> list_all is_joining es"
  proof (rule wait_connected_invariant
      [where I = "\<lambda>b'. \<exists>es. effect b es b' \<and> list_all is_joining es", OF _ _ start])
    fix b1 assume a: "\<exists>es. effect b es b1 \<and> list_all is_joining es"
    have "effect b1 [WiFiStatus True] (emit (WiFiStatus True) (b1\<lparr>wifi := True\<rparr>))"
      by (simp add: effect_def board_ops)
    from effect_step [OF a this]
    show "\<exists>es. effect b es (emit (WiFiStatus True) (b1\<lparr>wifi := True\<rparr>)) \<and> list_all is_joining es"
      by simp
    have "effect b1 [WiFiStatus False, Delay d] (delay d (emit (WiFiStatus False) (b1\<lparr>wifi := False\<rparr>)))"
      by (simp add: effect_def board_ops)
    from effect_step [OF a this]
    show "\<exists>es. effect b es (delay d (emit (WiFiStatus False) (b1\<lparr>wifi := False\<rparr>)))
        \<and> list_all is_joining es"
      by simp
  qed
  then show ?thesis by (simp add: setup_wifi_def)
qed

lemma setup_wifi_fields:
  "connected (board_of (setup_wifi d polls b)) = connected b
   \<and> relay_mode (board_of (setup_wifi d polls b)) = relay_mode b
   \<and> subscribed (board_of (setup_wifi d polls b)) = subscribed b"
  unfolding setup_wifi_def
  by (rule wait_connected_invariant
      [where I = "\<lambda>b'. connected b' = connected b \<and> relay_mode b' = relay_mode b
         \<and> subscribed b' = subscribed b"])
    (simp_all add: board_ops)

lemma wait_connected_wifi:
  "wifi (board_of (wait_connected d polls b)) = (if polls = [] then wifi b else True \<in> set polls)"
  by (induction polls arbitrary: b) (simp_all add: board_ops)

lemma setup_wifi_wifi:
  "wifi (board_of (setup_wifi d polls b)) = (if polls = [] then wifi b else True \<in> set polls)"
  by (simp add: setup_wifi_def wait_connected_wifi board_ops)

section \<open>Start-up\<close>

lemma setup_ino_effect:
  "\<exists>rest. effect b (PinMode OUTPUT # DigitalWrite HIGH # rest) (board_of (setup_ino polls b))
     \<and> list_all is_startup rest"
proof -
  let ?b0 = "digitalWrite HIGH (pinMode OUTPUT b)"
  have e0: "effect b [PinMode OUTPUT, DigitalWrite HIGH] ?b0"
    by (simp add: effect_def board_ops)
  from setup_wifi_effect [of ?b0 500 polls] obtain es where
    es: "effect ?b0 es (board_of (setup_wifi 500 polls ?b0))" "list_all is_joining es" by blast
  show ?thesis
  proof (cases "setup_wifi 500 polls ?b0" rule: outcome_cases)
    case (1 b1)
    have "effect b1 [SetServer, SetCallback] (emit SetCallback (emit SetServer b1))"
      by (simp add: effect_def board_ops)
    with es(1) 1 have "effect ?b0 (es @ [SetServer, SetCallback]) (board_of (setup_ino polls b))"
      by (simp add: setup_ino_def effect_trans)
    from effect_trans [OF e0 this] joining_startup [OF es(2)] show ?thesis
      by (intro exI [of _ "es @ [SetServer, SetCallback]"]) simp
  next
    case (2 b1)
    with es(1) have "effect ?b0 es (board_of (setup_ino polls b))"
      by (simp add: setup_ino_def)
    from effect_trans [OF e0 this] joining_startup [OF es(2)] show ?thesis
      by (intro exI [of _ es]) simp
  qed
qed

lemma setup_readme_effect:
  "\<exists>rest. effect b (PinMode OUTPUT # DigitalWrite HIGH # rest) (board_of (setup_readme polls b))
     \<and> list_all is_startup rest"
proof -
  let ?b0 = "emit SerialBegin (digitalWrite HIGH (pinMode OUTPUT b))"
  have e0: "effect b [PinMode OUTPUT, DigitalWrite HIGH, SerialBegin] ?b0"
    by (simp add: effect_def board_ops)
  from setup_wifi_effect [of ?b0 1000 polls] obtain es where
    es: "effect ?b0 es (board_of (setup_wifi 1000 polls ?b0))" "list_all is_joining es" by blast
  show ?thesis
  proof (cases "setup_wifi 1000 polls ?b0" rule: outcome_cases)
    case (1 b1)
    have "effect b1 [SetServer, SetCallback, DhtBegin]
            (emit DhtBegin (emit SetCallback (emit SetServer b1)))"
      by (simp add: effect_def board_ops)
    with es(1) 1 have "effect ?b0 (es @ [SetServer, SetCallback, DhtBegin])
        (board_of (setup_readme polls b))"
      by (simp add: setup_readme_def effect_trans)
    from effect_trans [OF e0 this] joining_startup [OF es(2)] show ?thesis
      by (intro exI [of _ "SerialBegin # es @ [SetServer, SetCallback, DhtBegin]"]) simp
  next
    case (2 b1)
    with es(1) have "effect ?b0 es (board_of (setup_readme polls b))"
      by (simp add: setup_readme_def)
    from effect_trans [OF e0 this] joining_startup [OF es(2)] show ?thesis
      by (intro exI [of _ "SerialBegin # es"]) simp
  qed
qed

lemma setup_ino_fields:
  "relay_mode (board_of (setup_ino polls b)) = OUTPUT
   \<and> connected (board_of (setup_ino polls b)) = connected b
   \<and> subscribed (board_of (setup_ino polls b)) = subscribed b
   \<and> wifi (board_of (setup_ino polls b)) = (if polls = [] then wifi b else True \<in> set polls)"
  using setup_wifi_fields [of 500 polls "digitalWrite HIGH (pinMode OUTPUT b)"]
    setup_wifi_wifi [of 500 polls "digitalWrite HIGH (pinMode OUTPUT b)"]
  by (cases "setup_wifi 500 polls (digitalWrite HIGH (pinMode OUTPUT b))" rule: outcome_cases)
    (simp_all add: setup_ino_def board_ops)

lemma setup_readme_fields:
  "relay_mode (board_of (setup_readme polls b)) = OUTPUT
   \<and> connected (board_of (setup_readme polls b)) = connected b
   \<and> subscribed (board_of (setup_readme polls b)) = subscribed b
   \<and> wifi (board_of (setup_readme polls b)) = (if polls = [] then wifi b else True \<in> set polls)"
  using setup_wifi_fields [of 1000 polls "emit SerialBegin (digitalWrite HIGH (pinMode OUTPUT b))"]
    setup_wifi_wifi [of 1000 polls "emit SerialBegin (digitalWrite HIGH (pinMode OUTPUT b))"]
  by (cases "setup_wifi 1000 polls (emit SerialBegin (digitalWrite HIGH (pinMode OUTPUT b)))"
      rule: outcome_cases)
    (simp_all add: setup_readme_def board_ops)

lemma setup_ino_returns_iff: "(\<exists>b'. setup_ino polls b = Inr b') \<longleftrightarrow> True \<in> set polls"
  using setup_wifi_returns_iff [of 500 polls "digitalWrite HIGH (pinMode OUTPUT b)"]
  by (auto simp: setup_ino_def thenDo_eq_Inr)

lemma setup_readme_returns_iff: "(\<exists>b'. setup_readme polls b = Inr b') \<longleftrightarrow> True \<in> set polls"
  using setup_wifi_returns_iff
    [of 1000 polls "emit SerialBegin (digitalWrite HIGH (pinMode OUTPUT b))"]
  by (auto simp: setup_readme_def thenDo_eq_Inr)

lemma setup_effect_off:
  assumes "effect b (PinMode OUTPUT # DigitalWrite HIGH # rest) b'" "list_all is_startup rest"
  shows "trace b' = trace b @ PinMode OUTPUT # DigitalWrite HIGH # rest \<and> relay b' = HIGH"
  using assms startup_events [of rest] by (simp add: effect_def)

lemma setup_off:
  assumes "\<exists>rest. effect b (PinMode OUTPUT # DigitalWrite HIGH # rest) b' \<and> list_all is_startup rest"
    and "relay_mode b' = OUTPUT"
  shows "(\<exists>rest. trace b' = trace b @ PinMode OUTPUT # DigitalWrite HIGH # rest
            \<and> list_all is_startup rest)
    \<and> relay b' = HIGH \<and> relay_mode b' = OUTPUT \<and> actuatorState b' = Off"
proof -
  from assms(1) obtain rest where
    eff: "effect b (PinMode OUTPUT # DigitalWrite HIGH # rest) b'" "list_all is_startup rest"
    by blast
  with setup_effect_off [OF eff] assms(2) show ?thesis
    by (auto simp: actuatorState_def)
qed

text \<open>
  C10: \<^verbatim>\<open>setup\<close> (of the sketch, and of the README listing) first makes the relay pin
  an output and drives it HIGH, and only then goes on to the WiFi join and the broker
  client. On every board that \<^verbatim>\<open>setup\<close> reaches from there on, while the join is still
  pending as well as when \<^verbatim>\<open>setup\<close> has returned, the relay is an output at HIGH and the
  appliance is Off, and nothing since has written the pin, connected, delivered a message
  or read the sensor. \<^verbatim>\<open>setup\<close> returns exactly when a status poll reports the join.
\<close>

theorem setup_initialises_off:
  "((\<exists>rest. trace (board_of (setup_ino polls b))
              = trace b @ PinMode OUTPUT # DigitalWrite HIGH # rest
            \<and> list_all is_startup rest)
    \<and> relay (board_of (setup_ino polls b)) = HIGH
    \<and> relay_mode (board_of (setup_ino polls b)) = OUTPUT
    \<and> actuatorState (board_of (setup_ino polls b)) = Off)
   \<and> ((\<exists>b'. setup_ino polls b = Inr b') \<longleftrightarrow> True \<in> set polls)
   \<and> ((\<exists>rest. trace (board_of (setup_readme polls b))
              = trace b @ PinMode OUTPUT # DigitalWrite HIGH # rest
            \<and> list_all is_startup rest)
    \<and> relay (board_of (setup_readme polls b)) = HIGH
    \<and> relay_mode (board_of (setup_readme polls b)) = OUTPUT
    \<and> actuatorState (board_of (setup_readme polls b)) = Off)
   \<and> ((\<exists>b'. setup_readme polls b = Inr b') \<longleftrightarrow> True \<in> set polls)"
  using setup_off [OF setup_ino_effect, of polls b] setup_ino_fields [of polls b]
    setup_off [OF setup_readme_effect, of polls b] setup_readme_fields [of polls b]
    setup_ino_returns_iff [of polls b] setup_readme_returns_iff [of polls b]
  by simp

text \<open>
  A join that is still pending after two failed polls, and a join that succeeds at the
  second poll.
\<close>

theorem setup_initialises_off_witness:
  "setup_ino [False, False] (power_on LOW)
     = Inl (NoReturn \<lparr>relay = HIGH, relay_mode = OUTPUT, wifi = False, connected = False,
         subscribed = [],
         trace = [PinMode OUTPUT, DigitalWrite HIGH, Delay 10, WiFiBegin, WiFiStatus False,
                  Delay 500, WiFiStatus False, Delay 500]\<rparr>)
   \<and> actuatorState (board_of (setup_ino [False, False] (power_on LOW))) = Off
   \<and> (\<exists>b'. setup_ino [False, True] (power_on LOW) = Inr b'
         \<and> trace b' = [PinMode OUTPUT, DigitalWrite HIGH, Delay 10, WiFiBegin,
              WiFiStatus False, Delay 500, WiFiStatus True, SetServer, SetCallback])
   \<and> actuatorState (board_of (setup_ino [False, True] (power_on LOW))) = Off"
proof -
  have "setup_ino [False, False] (power_on LOW)
     = Inl (NoReturn \<lparr>relay = HIGH, relay_mode = OUTPUT, wifi = False, connected = False,
         subscribed = [],
         trace = [PinMode OUTPUT, DigitalWrite HIGH, Delay 10, WiFiBegin, WiFiStatus False,
                  Delay 500, WiFiStatus False, Delay 500]\<rparr>)"
    by (simp add: setup_ino_def setup_wifi_def power_on_def board_ops)
  moreover have "\<exists>b'. setup_ino [False, True] (power_on LOW) = Inr b'
         \<and> trace b' = [PinMode OUTPUT, DigitalWrite HIGH, Delay 10, WiFiBegin,
              WiFiStatus False, Delay 500, WiFiStatus True, SetServer, SetCallback]"
    by (simp add: setup_ino_def setup_wifi_def power_on_def board_ops)
  ultimately show ?thesis
    using setup_initialises_off [of "[False, False]" "power_on LOW"]
      setup_initialises_off [of "[False, True]" "power_on LOW"]
    by simp
qed

section \<open>One pass of the README listing's loop\<close>

lemma connectivity_reconnect: "connectivity i b = reconnect light_topic (connects i) b"
  by (simp add: connectivity_def reconnect_readme_def reconnect_connected)

lemma loop_readme_split:
  assumes "loop_readme String i b = Inr b'"
  obtains b1 where "connectivity i b = Inr b1"
    and "b' = delay 10000 (automation (temperature i)
               (telemetry String (temperature i) (sampling (temperature i) (draining i b1))))"
  using assms by (auto simp: loop_readme_def thenDo_eq_Inr)

lemma loop_readme_pending:
  assumes "loop_readme String i b = Inl (NoReturn b')"
  shows "connectivity i b = Inl (NoReturn b')"
  using assms by (cases "connectivity i b" rule: outcome_cases) (simp_all add: loop_readme_def)

lemma measure_effect:
  "effect b
     ([ReadTemperature t]
        @ (if \<not> isnan t \<and> connected b then [Publish temp_topic (String t) True] else [])
        @ (if float_le t (Fin 16) then [DigitalWrite LOW]
           else if float_ge t (Fin 24) then [DigitalWrite HIGH] else [])
        @ [Delay 10000])
     (delay 10000 (automation t (telemetry String t (sampling t b))))"
  by (simp add: effect_def automation_def telemetry_def sampling_def board_ops)

lemma measure_fields:
  "connected (delay 10000 (automation t (telemetry String t (sampling t b)))) = connected b
   \<and> wifi (delay 10000 (automation t (telemetry String t (sampling t b)))) = wifi b
   \<and> relay_mode (delay 10000 (automation t (telemetry String t (sampling t b)))) = relay_mode b
   \<and> subscribed (delay 10000 (automation t (telemetry String t (sampling t b)))) = subscribed b"
  by (simp add: automation_def telemetry_def sampling_def board_ops)

text \<open>
  One pass of the README listing's loop, phase by phase: what each phase adds to the
  trace, and where the relay pin ends.
\<close>

lemma loop_readme_shape:
  assumes "loop_readme String i b = Inr b'"
  shows "\<exists>b1 b2 cs ds.
      connectivity i b = Inr b1 \<and> draining i b1 = b2
    \<and> trace b1 = trace b @ cs \<and> list_all is_connectivity cs \<and> relay b1 = relay b
    \<and> trace b2 = trace b1 @ ds \<and> list_all is_draining ds
    \<and> trace b' = trace b2
        @ [ReadTemperature (temperature i)]
        @ (if \<not> isnan (temperature i)
           then [Publish temp_topic (String (temperature i)) True] else [])
        @ (if float_le (temperature i) (Fin 16) then [DigitalWrite LOW]
           else if float_ge (temperature i) (Fin 24) then [DigitalWrite HIGH] else [])
        @ [Delay 10000]
    \<and> relay b' = (if float_le (temperature i) (Fin 16) then LOW
                  else if float_ge (temperature i) (Fin 24) then HIGH else relay b2)"
proof -
  let ?t = "temperature i"
  from assms obtain b1 where c: "connectivity i b = Inr b1"
    and b': "b' = delay 10000 (automation ?t (telemetry String ?t (sampling ?t (draining i b1))))"
    by (rule loop_readme_split)
  let ?b2 = "draining i b1"
  from c have r: "reconnect light_topic (connects i) b = Inr b1"
    by (simp add: connectivity_reconnect)
  from reconnect_effect [of b light_topic "connects i"] r obtain cs where
    cs: "effect b cs b1" "list_all is_connectivity cs" by auto
  from draining_effect [of b1 i] obtain ds where
    ds: "effect b1 ds ?b2" "list_all is_draining ds" by blast
  have "connected b1" using r by (rule reconnect_returned_connected)
  then have conn: "connected ?b2" by (simp add: draining_fields)
  have r1: "relay b1 = relay b"
    using reconnect_fields [of light_topic "connects i" b] r by simp
  have m: "trace b' = trace ?b2
        @ [ReadTemperature ?t]
        @ (if \<not> isnan ?t then [Publish temp_topic (String ?t) True] else [])
        @ (if float_le ?t (Fin 16) then [DigitalWrite LOW]
           else if float_ge ?t (Fin 24) then [DigitalWrite HIGH] else [])
        @ [Delay 10000]"
    using effect_trace [OF measure_effect [of ?b2 ?t String]] conn by (simp add: b')
  have rl: "relay b' = (if float_le ?t (Fin 16) then LOW
                  else if float_ge ?t (Fin 24) then HIGH else relay ?b2)"
    by (simp add: b' automation_def telemetry_def sampling_def board_ops)
  from c effect_trace [OF cs(1)] cs(2) r1 effect_trace [OF ds(1)] ds(2) m rl
  show ?thesis by blast
qed

lemma loop_readme_cases:
  assumes "loop_readme String i b = Inr b'"
  obtains b1 b2 cs ds where
    "connectivity i b = Inr b1" "draining i b1 = b2"
    "trace b1 = trace b @ cs" "list_all is_connectivity cs" "relay b1 = relay b"
    "trace b2 = trace b1 @ ds" "list_all is_draining ds"
    "trace b' = trace b2
        @ [ReadTemperature (temperature i)]
        @ (if \<not> isnan (temperature i)
           then [Publish temp_topic (String (temperature i)) True] else [])
        @ (if float_le (temperature i) (Fin 16) then [DigitalWrite LOW]
           else if float_ge (temperature i) (Fin 24) then [DigitalWrite HIGH] else [])
        @ [Delay 10000]"
    "relay b' = (if float_le (temperature i) (Fin 16) then LOW
                  else if float_ge (temperature i) (Fin 24) then HIGH else relay b2)"
  using loop_readme_shape [OF assms] by (elim exE conjE)

lemma loop_readme_connected:
  assumes "loop_readme String i b = Inr b'"
  shows "connected b'"
proof -
  from assms obtain b1 where c: "connectivity i b = Inr b1"
    and b': "b' = delay 10000 (automation (temperature i)
               (telemetry String (temperature i) (sampling (temperature i) (draining i b1))))"
    by (rule loop_readme_split)
  from c have "connected b1"
    by (simp add: connectivity_reconnect reconnect_returned_connected)
  then show ?thesis
    by (simp add: b' measure_fields draining_fields)
qed

lemma loop_readme_publishes:
  assumes "loop_readme String i b = Inr b'"
  shows "publishes (trace b') = publishes (trace b)
     @ (if \<not> isnan (temperature i) then [(temp_topic, String (temperature i), True)] else [])"
proof -
  from assms obtain b1 b2 cs ds where
    c: "connectivity i b = Inr b1" and d: "draining i b1 = b2"
    and t1: "trace b1 = trace b @ cs" and cs: "list_all is_connectivity cs"
    and r1: "relay b1 = relay b"
    and t2: "trace b2 = trace b1 @ ds" and ds: "list_all is_draining ds"
    and t': "trace b' = trace b2
        @ [ReadTemperature (temperature i)]
        @ (if \<not> isnan (temperature i)
           then [Publish temp_topic (String (temperature i)) True] else [])
        @ (if float_le (temperature i) (Fin 16) then [DigitalWrite LOW]
           else if float_ge (temperature i) (Fin 24) then [DigitalWrite HIGH] else [])
        @ [Delay 10000]"
    and r: "relay b' = (if float_le (temperature i) (Fin 16) then LOW
                  else if float_ge (temperature i) (Fin 24) then HIGH else relay b2)"
    by (rule loop_readme_cases)
  have "publishes (trace b2) = publishes (trace b)"
    using connectivity_events [OF cs] draining_events [OF ds]
    by (simp add: t1 t2 publishes_append)
  then show ?thesis
    by (simp add: t' publishes_append)
qed

lemma loop_readme_pending_publishes:
  assumes "loop_readme String i b = Inl (NoReturn b')"
  shows "publishes (trace b') = publishes (trace b)"
proof -
  from loop_readme_pending [OF assms]
  have "reconnect light_topic (connects i) b = Inl (NoReturn b')"
    by (simp add: connectivity_reconnect)
  with reconnect_effect [of b light_topic "connects i"] obtain cs where
    "effect b cs b'" "list_all is_connectivity cs" by auto
  then show ?thesis
    using connectivity_events [of cs] by (simp add: effect_def publishes_append)
qed

lemma loop_readme_returns_iff:
  "(\<exists>b'. loop_readme String i b = Inr b') \<longleftrightarrow> connected b \<or> True \<in> set (connects i)"
  using reconnect_returns_iff [of light_topic "connects i" b]
  by (auto simp: loop_readme_def thenDo_eq_Inr connectivity_reconnect)

lemmas run_readme = program_readme_def setup_readme_def setup_wifi_def loop_readme_def
  connectivity_def draining_def sampling_def telemetry_def automation_def
  reconnect_readme_def callback_readme_def light_topic_def temp_topic_def float_ge_def
  power_on_def board_ops

lemmas run_ino = program_ino_def setup_ino_def setup_wifi_def loop_ino_def reconnect_ino_def
  callback_ino_def power_on_def board_ops

section \<open>The threshold rule\<close>

text \<open>
  C1: for every reading that is not not-a-number, the automation block of the README
  listing leaves the appliance On when the value is at most 16.0, Off when it is at
  least 24.0, and as it was when the value lies strictly between the two.
\<close>

theorem automation_thresholds:
  "actuatorState (automation (Fin x) b)
     = (if x \<le> 16 then On else if 24 \<le> x then Off else actuatorState b)
   \<and> actuatorState (automation MInf b) = On
   \<and> actuatorState (automation PInf b) = Off"
  by (simp add: automation_def float_ge_def)

theorem automation_thresholds_witness:
  "actuatorState (automation (Fin 15) (power_on HIGH)) = On
   \<and> actuatorState (automation (Fin 25) (power_on LOW)) = Off
   \<and> actuatorState (automation (Fin 20) (power_on LOW)) = On"
  using automation_thresholds [of 15 "power_on HIGH"] automation_thresholds [of 25 "power_on LOW"]
    automation_thresholds [of 20 "power_on LOW"]
  by (simp add: actuatorState_def power_on_def)

section \<open>Command dispatch\<close>

text \<open>
  The README listing follows the payload grammar on its light topic: "ON" switches on,
  "OFF" switches off, anything else changes nothing.
\<close>

lemma callback_readme_grammar:
  "actuatorState (callback_readme light_topic payload behind b)
     = (if payload = ''ON'' then On else if payload = ''OFF'' then Off else actuatorState b)"
  by (simp add: callback_readme_def)

text \<open>
  C2: the sketch's callback does not follow that grammar. It looks at \<^verbatim>\<open>payload[0]\<close>
  only: the payload "ON" drives the relay HIGH (Off), "1" drives it LOW (On), any other
  payload switches an appliance that was On to Off, and a message without payload
  switches by the byte that lies behind it.
\<close>

theorem callback_ino_ON_drives_off:
  "actuatorState (callback_ino ''home/room1/light1'' ''ON'' behind (power_on LOW)) = Off
   \<and> actuatorState (callback_ino ''home/room1/light1'' ''1'' behind (power_on HIGH)) = On
   \<and> actuatorState (callback_ino ''home/room1/light1'' ''status?'' behind (power_on LOW)) = Off
   \<and> actuatorState (callback_ino ''home/room1/light1'' [] behind (power_on LOW))
       = (if behind = CHR ''1'' then On else Off)"
  by (simp add: callback_ino_def)



section \<open>The order of one pass of the loop\<close>

text \<open>
  C3, as the code has it: every pass of the README listing's loop that returns runs
  connectivity maintenance, then message draining, then sampling, then the telemetry
  publish, then the automation evaluation, then the 10 s delay. The commands of the pass
  are applied to the relay before the automation evaluation, and when the automation
  writes, its write is the level the pass ends with.
\<close>

theorem loop_readme_phases:
  assumes "loop_readme String i b = Inr b'"
  shows "\<exists>b1 b2 cs ds.
      connectivity i b = Inr b1 \<and> draining i b1 = b2
    \<and> trace b1 = trace b @ cs \<and> list_all is_connectivity cs \<and> relay b1 = relay b
    \<and> trace b2 = trace b1 @ ds \<and> list_all is_draining ds
    \<and> trace b' = trace b2
        @ [ReadTemperature (temperature i)]
        @ (if \<not> isnan (temperature i)
           then [Publish temp_topic (String (temperature i)) True] else [])
        @ (if float_le (temperature i) (Fin 16) then [DigitalWrite LOW]
           else if float_ge (temperature i) (Fin 24) then [DigitalWrite HIGH] else [])
        @ [Delay 10000]
    \<and> relay b' = (if float_le (temperature i) (Fin 16) then LOW
                  else if float_ge (temperature i) (Fin 24) then HIGH else relay b2)"
  using assms by (rule loop_readme_shape)

text \<open>
  A pass that opens the session, receives "ON" and then samples 25.0: the command
  switches the appliance on, the automation switches it off again, and the pass ends Off.
\<close>

theorem loop_readme_phases_witness:
  "\<exists>b'. loop_readme (\<lambda>t. ''25.00'')
          \<lparr>lost = False, connects = [True], inbound = [(light_topic, ''ON'', CHR ''x'')],
            temperature = Fin 25\<rparr> (power_on HIGH) = Inr b'
        \<and> trace b' = [Connect True, Subscribe light_topic,
             Deliver light_topic ''ON'' (CHR ''x''),
             DigitalWrite LOW, ReadTemperature (Fin 25),
             Publish temp_topic ''25.00'' True, DigitalWrite HIGH, Delay 10000]
        \<and> relay b' = HIGH"
proof -
  let ?i = "\<lparr>lost = False, connects = [True], inbound = [(light_topic, ''ON'', CHR ''x'')],
            temperature = Fin 25\<rparr>"
  obtain b' where run: "loop_readme (\<lambda>t. ''25.00'') ?i (power_on HIGH) = Inr b'"
    and t: "trace b' = [Connect True, Subscribe light_topic,
             Deliver light_topic ''ON'' (CHR ''x''),
             DigitalWrite LOW, ReadTemperature (Fin 25),
             Publish temp_topic ''25.00'' True, DigitalWrite HIGH, Delay 10000]"
    by (simp add: run_readme)
  from loop_readme_phases [OF run] have "relay b' = HIGH"
    by (auto simp: float_ge_def)
  with run t show ?thesis by blast
qed

text \<open>
  C3, as the claim states it, fails: the telemetry publish does not come after the
  automation evaluation. In the run below (power-on, join, one pass that samples 15.0)
  the publish of the sample precedes the automation's write of LOW.
\<close>

theorem telemetry_precedes_automation:
  "\<exists>b. program_readme (\<lambda>t. ''15.00'') [True]
         [\<lparr>lost = False, connects = [True], inbound = [], temperature = Fin 15\<rparr>]
         (power_on HIGH) = Inr b
       \<and> trace b = [PinMode OUTPUT, DigitalWrite HIGH, SerialBegin, Delay 10, WiFiBegin,
            WiFiStatus True, SetServer, SetCallback, DhtBegin,
            Connect True, Subscribe ''home/room1/light'',
            ReadTemperature (Fin 15), Publish ''home/room1/temperature'' ''15.00'' True,
            DigitalWrite LOW, Delay 10000]
       \<and> occurs_before (Publish ''home/room1/temperature'' ''15.00'' True) (DigitalWrite LOW)
            (trace b)
       \<and> \<not> occurs_before (DigitalWrite LOW) (Publish ''home/room1/temperature'' ''15.00'' True)
            (trace b)"
  by (simp add: run_readme occurs_before_def)

section \<open>Invalid samples\<close>

text \<open>
  C5: in a pass of the README listing's loop whose sample is not-a-number, nothing
  happens after the message draining but the sensor read and the 10 s delay: the relay
  and the appliance state stay as the draining left them, and nothing is published in
  the whole pass. (The code has no automation timer.)
\<close>

theorem invalid_sample_skipped:
  assumes "loop_readme String i b = Inr b'" and "isnan (temperature i)"
  shows "\<exists>b1 b2. connectivity i b = Inr b1 \<and> draining i b1 = b2
     \<and> trace b' = trace b2 @ [ReadTemperature NaN, Delay 10000]
     \<and> relay b' = relay b2 \<and> actuatorState b' = actuatorState b2
     \<and> publishes (trace b') = publishes (trace b)"
proof -
  from assms(2) have nan: "temperature i = NaN" by (simp add: isnan_iff)
  from assms(1) obtain b1 b2 cs ds where
    c: "connectivity i b = Inr b1" and d: "draining i b1 = b2"
    and t1: "trace b1 = trace b @ cs" and cs: "list_all is_connectivity cs"
    and r1: "relay b1 = relay b"
    and t2: "trace b2 = trace b1 @ ds" and ds: "list_all is_draining ds"
    and t': "trace b' = trace b2
        @ [ReadTemperature (temperature i)]
        @ (if \<not> isnan (temperature i)
           then [Publish temp_topic (String (temperature i)) True] else [])
        @ (if float_le (temperature i) (Fin 16) then [DigitalWrite LOW]
           else if float_ge (temperature i) (Fin 24) then [DigitalWrite HIGH] else [])
        @ [Delay 10000]"
    and r: "relay b' = (if float_le (temperature i) (Fin 16) then LOW
                  else if float_ge (temperature i) (Fin 24) then HIGH else relay b2)"
    by (rule loop_readme_cases)
  have "trace b' = trace b2 @ [ReadTemperature NaN, Delay 10000]"
    using t' by (simp add: nan float_ge_def)
  moreover have rl: "relay b' = relay b2"
    using r by (simp add: nan float_ge_def)
  moreover have "actuatorState b' = actuatorState b2"
    using rl by (simp add: actuatorState_def)
  moreover have "publishes (trace b') = publishes (trace b)"
    using loop_readme_publishes [OF assms(1)] by (simp add: nan)
  ultimately show ?thesis using c d by blast
qed

theorem invalid_sample_skipped_witness:
  "\<exists>b'. loop_readme (\<lambda>t. ''nan'')
          \<lparr>lost = False, connects = [True], inbound = [(light_topic, ''ON'', CHR ''x'')],
            temperature = NaN\<rparr> (power_on HIGH) = Inr b'
        \<and> trace b' = [Connect True, Subscribe light_topic,
             Deliver light_topic ''ON'' (CHR ''x''),
             DigitalWrite LOW, ReadTemperature NaN, Delay 10000]
        \<and> actuatorState b' = On
        \<and> publishes (trace b') = []"
proof -
  let ?i = "\<lparr>lost = False, connects = [True], inbound = [(light_topic, ''ON'', CHR ''x'')],
            temperature = NaN\<rparr>"
  obtain b' where run: "loop_readme (\<lambda>t. ''nan'') ?i (power_on HIGH) = Inr b'"
    and t: "trace b' = [Connect True, Subscribe light_topic,
             Deliver light_topic ''ON'' (CHR ''x''),
             DigitalWrite LOW, ReadTemperature NaN, Delay 10000]"
    and a: "actuatorState b' = On"
    by (simp add: run_readme actuatorState_def)
  have "isnan (temperature ?i)" by simp
  from invalid_sample_skipped [OF run this] have "publishes (trace b') = []"
    by (auto simp: power_on_def)
  with run t a show ?thesis by blast
qed

section \<open>Telemetry\<close>

lemma is_digit_digit: "is_digit (digit n)"
  unfolding is_digit_def digit_def by (rule nth_mem) simp

lemma not_digit_point: "\<not> is_digit CHR ''.''" "\<not> is_digit CHR ''-''"
  by (simp_all add: is_digit_def)

lemma digits_ok: "digits n \<noteq> [] \<and> list_all is_digit (digits n)"
proof (induction n rule: digits.induct)
  case (1 n)
  then show ?case by (simp add: digits.simps [of n] is_digit_digit)
qed

lemma is_decimal_shape:
  assumes "ds \<noteq> []" "list_all is_digit ds" "fs \<noteq> []" "list_all is_digit fs"
  shows "is_decimal (ds @ CHR ''.'' # fs)" "is_decimal (CHR ''-'' # ds @ CHR ''.'' # fs)"
proof -
  from assms(1) obtain d ds' where ds: "ds = d # ds'" by (cases ds) auto
  with assms(2) have d: "is_digit d" by simp
  then have nm: "d \<noteq> CHR ''-''" using not_digit_point(2) by auto
  have all: "\<And>x. x \<in> set ds \<Longrightarrow> is_digit x"
    using assms(2) by (simp add: list_all_iff)
  have tw: "takeWhile is_digit (ds @ CHR ''.'' # fs) = ds"
    using all by (simp add: takeWhile_append2 not_digit_point)
  have dw: "dropWhile is_digit (ds @ CHR ''.'' # fs) = CHR ''.'' # fs"
    using all by (simp add: dropWhile_append2 not_digit_point)
  have t1: "take 1 (ds @ CHR ''.'' # fs) \<noteq> ''-''"
    using nm by (simp add: ds)
  show "is_decimal (ds @ CHR ''.'' # fs)"
    unfolding is_decimal_def Let_def using t1 tw dw assms by simp
  show "is_decimal (CHR ''-'' # ds @ CHR ''.'' # fs)"
    unfolding is_decimal_def Let_def using tw dw assms by simp
qed

lemma decimal_format:
  "is_decimal ((if neg then ''-'' else []) @ digits m @ ''.'' @ [digit a, digit c])"
proof -
  have fs: "[digit a, digit c] \<noteq> []" "list_all is_digit [digit a, digit c]"
    by (simp_all add: is_digit_digit)
  from is_decimal_shape [OF digits_ok [THEN conjunct1] digits_ok [THEN conjunct2] fs, of m]
  show ?thesis by (cases neg) simp_all
qed

lemma String_float_decimal: "is_decimal (String_float (Fin x))"
  unfolding String_float_def Let_def by (simp only: float.case) (rule decimal_format)

text \<open>
  C7: the telemetry block publishes exactly when the sample is a number and the broker
  session is open, and what it publishes is \<^verbatim>\<open>String(temp)\<close> on the temperature topic
  with the retained flag set; for a finite sample that payload is a decimal string. A
  pass of the loop that returns ends with the session open and has published that one
  message if the sample was a number, and nothing otherwise; a pass that is still
  waiting for the broker has published nothing.
\<close>

theorem telemetry_publish:
  "telemetry String t b
     = (if \<not> isnan t \<and> connected b then emit (Publish temp_topic (String t) True) b else b)
   \<and> (connected b \<longrightarrow>
        (\<exists>p. publishes (trace (telemetry String_float (Fin x) b))
               = publishes (trace b) @ [(temp_topic, p, True)]
             \<and> p = String_float (Fin x) \<and> is_decimal p))
   \<and> (loop_readme String i b0 = Inr b' \<longrightarrow>
        connected b' \<and>
        publishes (trace b') = publishes (trace b0)
          @ (if \<not> isnan (temperature i) then [(temp_topic, String (temperature i), True)]
             else []))
   \<and> (loop_readme String i b0 = Inl (NoReturn b') \<longrightarrow>
        publishes (trace b') = publishes (trace b0))"
  using loop_readme_publishes [of String i b0 b'] loop_readme_connected [of String i b0 b']
    loop_readme_pending_publishes [of String i b0 b'] String_float_decimal [of x]
  by (simp add: telemetry_def client_publish_def emit_def publishes_append)

theorem telemetry_publish_witness:
  "\<exists>b'. loop_readme String_float
          \<lparr>lost = False, connects = [True], inbound = [], temperature = Fin 25\<rparr>
          (power_on HIGH) = Inr b'
        \<and> publishes (trace b') = [(''home/room1/temperature'', ''25.00'', True)]
        \<and> is_decimal ''25.00''
        \<and> telemetry String_float (Fin 25) (power_on HIGH) = power_on HIGH
        \<and> publishes (trace (board_of (loop_readme String_float
            \<lparr>lost = False, connects = [False], inbound = [], temperature = Fin 25\<rparr>
            (power_on HIGH)))) = []"
proof -
  let ?i = "\<lparr>lost = False, connects = [True], inbound = [], temperature = Fin 25\<rparr>"
  let ?j = "\<lparr>lost = False, connects = [False], inbound = [], temperature = Fin 25\<rparr>"
  let ?c = "\<lparr>relay = HIGH, relay_mode = INPUT, wifi = False, connected = True,
             subscribed = [], trace = []\<rparr>"
  have s: "String_float (Fin 25) = ''25.00''"
    by (simp add: String_float_def digit_def digits.simps)
  obtain b' where run: "loop_readme String_float ?i (power_on HIGH) = Inr b'"
    by (simp add: run_readme)
  obtain b'' where pen: "loop_readme String_float ?j (power_on HIGH) = Inl (NoReturn b'')"
    by (simp add: run_readme)
  have c: "connected ?c" by simp
  from telemetry_publish [of String_float "Fin 25" "power_on HIGH" 25 ?i "power_on HIGH" b'] run
  have 1: "publishes (trace b') = [(''home/room1/temperature'', ''25.00'', True)]"
    and 2: "telemetry String_float (Fin 25) (power_on HIGH) = power_on HIGH"
    by (simp_all add: power_on_def temp_topic_def s)
  from telemetry_publish [of String_float "Fin 25" ?c 25 ?j "power_on HIGH" b''] pen c
  have 3: "is_decimal ''25.00''"
    and 4: "publishes (trace b'') = []"
    by (simp_all add: power_on_def s)
  from run 1 2 3 4 pen show ?thesis by simp
qed

section \<open>The economy fallback\<close>





section \<open>The relay pin and the decisions\<close>

lemma wait_connected_invariant2:
  assumes ok: "\<And>b. I b \<Longrightarrow> J (emit (WiFiStatus True) (b\<lparr>wifi := True\<rparr>))"
    and failed: "\<And>b. I b \<Longrightarrow> I (delay d (emit (WiFiStatus False) (b\<lparr>wifi := False\<rparr>)))"
  shows "I b \<Longrightarrow>
    (case wait_connected d polls b of Inr b' \<Rightarrow> J b' | Inl e \<Rightarrow> I (board_of (Inl e)))"
proof (induction polls arbitrary: b)
  case Nil
  then show ?case by simp
next
  case (Cons s ss)
  show ?case
  proof (cases s)
    case True
    with ok [OF Cons.prems] show ?thesis by simp
  next
    case False
    from failed [OF Cons.prems] have "I (delay d (emit (WiFiStatus False) (b\<lparr>wifi := False\<rparr>)))" .
    from Cons.IH [OF this] False show ?thesis by simp
  qed
qed

lemma polarity_inv_neutral:
  assumes "polarity_inv dec b" and "dec e = None" and "\<And>l. e \<noteq> DigitalWrite l"
  shows "polarity_inv dec (emit e b)"
  using assms
  by (cases e)
    (auto simp: polarity_inv_def polarity_run_def last_decision_def emit_def actuatorState_def)

lemma polarity_inv_flags [simp]:
  "polarity_inv dec (b\<lparr>connected := c\<rparr>) = polarity_inv dec b"
  "polarity_inv dec (b\<lparr>subscribed := s\<rparr>) = polarity_inv dec b"
  "polarity_inv dec (b\<lparr>wifi := w\<rparr>) = polarity_inv dec b"
  by (simp_all add: polarity_inv_def actuatorState_def)

lemma decision_neutral:
  "decision_ino (Connect ok) = None" "decision_ino (Subscribe t) = None"
  "decision_ino (Delay ms) = None" "decision_ino (WiFiStatus s) = None"
  "decision_ino WiFiBegin = None" "decision_ino SetServer = None"
  "decision_ino SetCallback = None" "decision_ino SessionLost = None"
  "decision_readme (Connect ok) = None" "decision_readme (Subscribe t) = None"
  "decision_readme (Delay ms) = None" "decision_readme (WiFiStatus s) = None"
  "decision_readme WiFiBegin = None" "decision_readme SetServer = None"
  "decision_readme SetCallback = None" "decision_readme SessionLost = None"
  "decision_readme SerialBegin = None" "decision_readme DhtBegin = None"
  "decision_readme (Publish t p r) = None"
  by simp_all

lemma polarity_inv_reconnect:
  assumes "dec = decision_ino \<or> dec = decision_readme"
  shows "polarity_inv dec b \<Longrightarrow> polarity_inv dec (board_of (reconnect topic cs b))"
proof (rule reconnect_invariant [where I = "polarity_inv dec"])
  fix b1 :: board assume a: "polarity_inv dec b1"
  show "polarity_inv dec (client_subscribe topic (client_connect True b1))"
    using assms a
    by (auto simp: client_subscribe_def client_connect_def decision_neutral
        intro!: polarity_inv_neutral)
  show "polarity_inv dec (delay 5000 (client_connect False b1))"
    using assms a
    by (auto simp: delay_def client_connect_def decision_neutral intro!: polarity_inv_neutral)
qed

lemma polarity_inv_session_lost:
  assumes "dec = decision_ino \<or> dec = decision_readme"
  shows "polarity_inv dec b \<Longrightarrow> polarity_inv dec (session_lost b)"
  using assms
  by (auto simp: session_lost_def decision_neutral intro!: polarity_inv_neutral)

lemma polarity_inv_setup_wifi:
  assumes "dec = decision_ino \<or> dec = decision_readme"
  shows "polarity_inv dec b \<Longrightarrow> polarity_inv dec (board_of (setup_wifi d polls b))"
proof -
  assume a: "polarity_inv dec b"
  have s: "polarity_inv dec (emit WiFiBegin (delay 10 b))"
    using assms a by (auto simp: delay_def decision_neutral intro!: polarity_inv_neutral)
  show ?thesis
    unfolding setup_wifi_def
  proof (rule wait_connected_invariant [where I = "polarity_inv dec", OF _ _ s])
    fix b1 :: board assume a1: "polarity_inv dec b1"
    show "polarity_inv dec (emit (WiFiStatus True) (b1\<lparr>wifi := True\<rparr>))"
      using assms a1 by (auto simp: decision_neutral intro!: polarity_inv_neutral)
    show "polarity_inv dec (delay d (emit (WiFiStatus False) (b1\<lparr>wifi := False\<rparr>)))"
      using assms a1 by (auto simp: delay_def decision_neutral intro!: polarity_inv_neutral)
  qed
qed

lemma polarity_inv_pin_init:
  assumes "dec = decision_ino \<or> dec = decision_readme"
  shows "polarity_inv dec (digitalWrite HIGH (pinMode OUTPUT (power_on l)))"
  using assms
  by (auto simp: polarity_inv_def polarity_run_def last_decision_def power_on_def board_ops
      signal_def actuatorState_def)

lemma polarity_inv_setup_ino:
  "polarity_inv decision_ino (board_of (setup_ino polls (power_on l)))"
proof -
  let ?b0 = "digitalWrite HIGH (pinMode OUTPUT (power_on l))"
  have w: "polarity_inv decision_ino (board_of (setup_wifi 500 polls ?b0))"
    by (simp add: polarity_inv_setup_wifi polarity_inv_pin_init)
  show ?thesis
  proof (cases "setup_wifi 500 polls ?b0" rule: outcome_cases)
    case (1 b1)
    with w have "polarity_inv decision_ino (emit SetCallback (emit SetServer b1))"
      by (auto simp: decision_neutral intro!: polarity_inv_neutral)
    with 1 show ?thesis by (simp add: setup_ino_def)
  next
    case (2 b1)
    with w show ?thesis by (simp add: setup_ino_def)
  qed
qed

lemma polarity_inv_setup_readme:
  "polarity_inv decision_readme (board_of (setup_readme polls (power_on l)))"
proof -
  let ?b0 = "emit SerialBegin (digitalWrite HIGH (pinMode OUTPUT (power_on l)))"
  have "polarity_inv decision_readme ?b0"
    by (auto simp: polarity_inv_pin_init decision_neutral intro!: polarity_inv_neutral)
  then have w: "polarity_inv decision_readme (board_of (setup_wifi 1000 polls ?b0))"
    by (simp add: polarity_inv_setup_wifi)
  show ?thesis
  proof (cases "setup_wifi 1000 polls ?b0" rule: outcome_cases)
    case (1 b1)
    with w have "polarity_inv decision_readme
        (emit DhtBegin (emit SetCallback (emit SetServer b1)))"
      by (auto simp: decision_neutral intro!: polarity_inv_neutral)
    with 1 show ?thesis by (simp add: setup_readme_def)
  next
    case (2 b1)
    with w show ?thesis by (simp add: setup_readme_def)
  qed
qed

lemma polarity_inv_callback_ino:
  "polarity_inv decision_ino b \<Longrightarrow>
   polarity_inv decision_ino (callback_ino t p z (emit (Deliver t p z) b))"
  by (simp add: polarity_inv_def polarity_run_def last_decision_def callback_ino_def
      board_ops signal_def actuatorState_def)

lemma polarity_inv_callback_readme:
  "polarity_inv decision_readme b \<Longrightarrow>
   polarity_inv decision_readme (callback_readme t p z (emit (Deliver t p z) b))"
  by (simp add: polarity_inv_def polarity_run_def last_decision_def callback_readme_def
      light_topic_def board_ops signal_def actuatorState_def)

lemma polarity_inv_measure:
  "polarity_inv decision_readme b \<Longrightarrow>
   polarity_inv decision_readme (delay 10000 (automation t (telemetry String t (sampling t b))))"
  by (simp add: polarity_inv_def polarity_run_def last_decision_def automation_def
      telemetry_def sampling_def board_ops signal_def actuatorState_def)

lemma polarity_inv_loop_ino:
  assumes "polarity_inv decision_ino b"
  shows "polarity_inv decision_ino (board_of (loop_ino i b))"
proof -
  let ?r = "if \<not> connected b then reconnect_ino (connects i) b else Inr b"
  have r: "polarity_inv decision_ino (board_of ?r)"
    using assms by (simp add: reconnect_ino_def polarity_inv_reconnect)
  show ?thesis
  proof (cases ?r rule: outcome_cases)
    case (1 b1)
    with r have "polarity_inv decision_ino b1" by simp
    then have "polarity_inv decision_ino (client_loop callback_ino (inbound i) b1)"
      by (rule client_loop_invariant [rotated]) (rule polarity_inv_callback_ino)
    with 1 show ?thesis by (simp add: loop_ino_def)
  next
    case (2 b1)
    with r show ?thesis by (simp add: loop_ino_def)
  qed
qed

lemma polarity_inv_loop_readme:
  assumes "polarity_inv decision_readme b"
  shows "polarity_inv decision_readme (board_of (loop_readme String i b))"
proof -
  have r: "polarity_inv decision_readme (board_of (connectivity i b))"
    using assms by (simp add: connectivity_reconnect polarity_inv_reconnect)
  show ?thesis
  proof (cases "connectivity i b" rule: outcome_cases)
    case (1 b1)
    with r have "polarity_inv decision_readme b1" by simp
    then have "polarity_inv decision_readme (draining i b1)"
      unfolding draining_def
      by (rule client_loop_invariant [rotated]) (rule polarity_inv_callback_readme)
    then show ?thesis
      using 1 by (simp add: loop_readme_def polarity_inv_measure)
  next
    case (2 b1)
    with r show ?thesis by (simp add: loop_readme_def)
  qed
qed

lemma polarity_inv_program_ino:
  "polarity_inv decision_ino (board_of (program_ino polls ticks (power_on l)))"
proof (cases "setup_ino polls (power_on l)" rule: outcome_cases)
  case (1 b1)
  with polarity_inv_setup_ino [of polls l] have "polarity_inv decision_ino b1" by simp
  then have "polarity_inv decision_ino (board_of (run_ticks loop_ino ticks b1))"
    by (rule run_ticks_invariant [rotated 2])
      (simp_all add: polarity_inv_loop_ino polarity_inv_session_lost)
  with 1 show ?thesis by (simp add: program_ino_def)
next
  case (2 b1)
  with polarity_inv_setup_ino [of polls l] show ?thesis by (simp add: program_ino_def)
qed

lemma polarity_inv_program_readme:
  "polarity_inv decision_readme (board_of (program_readme String polls ticks (power_on l)))"
proof (cases "setup_readme polls (power_on l)" rule: outcome_cases)
  case (1 b1)
  with polarity_inv_setup_readme [of polls l] have "polarity_inv decision_readme b1" by simp
  then have "polarity_inv decision_readme (board_of (run_ticks (loop_readme String) ticks b1))"
    by (rule run_ticks_invariant [rotated 2])
      (simp_all add: polarity_inv_loop_readme polarity_inv_session_lost)
  with 1 show ?thesis by (simp add: program_readme_def)
next
  case (2 b1)
  with polarity_inv_setup_readme [of polls l] show ?thesis by (simp add: program_readme_def)
qed

text \<open>
  What the polarity check refuses: a write with the wrong level, a write that no
  decision calls for, and a decision that is left without its write.
\<close>

lemma polarity_run_examples:
  "polarity_run decision_ino [PinMode OUTPUT, DigitalWrite HIGH] = Some None"
  "polarity_run decision_ino [PinMode OUTPUT, DigitalWrite LOW] = None"
  "polarity_run decision_ino [PinMode OUTPUT, DigitalWrite HIGH, DigitalWrite LOW] = None"
  "polarity_run decision_ino [PinMode OUTPUT, DigitalWrite HIGH, Deliver t ''1'' z]
     = Some (Some On)"
  "polarity_run decision_readme
     [PinMode OUTPUT, DigitalWrite HIGH, Deliver ''home/room1/light'' ''ON'' z,
      ReadTemperature (Fin 25)] = None"
  by (simp_all add: polarity_run_def signal_def float_ge_def)

text \<open>
  C9: in every run of the program from power-on (the sketch or the README listing:
  \<^verbatim>\<open>setup\<close>, then any number of passes of \<^verbatim>\<open>loop\<close>, whether the run has returned or is
  waiting in a blocking loop), the relay pin is an output; every logical decision (Off
  at \<^verbatim>\<open>setup\<close>, the decision of each delivered command, the decision of each sample) is
  followed by its write before the next decision, LOW for On and HIGH for Off, and the
  pin is written for no other reason; the level of the pin is the level of the most
  recent decision, and the appliance state is that decision.
\<close>

theorem relay_follows_decisions:
  "relay_mode (board_of (program_ino polls ticks (power_on l))) = OUTPUT
   \<and> polarity_run decision_ino (trace (board_of (program_ino polls ticks (power_on l))))
       = Some None
   \<and> map_option signal
        (last_decision decision_ino (trace (board_of (program_ino polls ticks (power_on l)))))
       = Some (relay (board_of (program_ino polls ticks (power_on l))))
   \<and> last_decision decision_ino (trace (board_of (program_ino polls ticks (power_on l))))
       = Some (actuatorState (board_of (program_ino polls ticks (power_on l))))
   \<and> relay_mode (board_of (program_readme String polls ticks (power_on l))) = OUTPUT
   \<and> polarity_run decision_readme
        (trace (board_of (program_readme String polls ticks (power_on l)))) = Some None
   \<and> map_option signal
        (last_decision decision_readme
          (trace (board_of (program_readme String polls ticks (power_on l)))))
       = Some (relay (board_of (program_readme String polls ticks (power_on l))))
   \<and> last_decision decision_readme
        (trace (board_of (program_readme String polls ticks (power_on l))))
       = Some (actuatorState (board_of (program_readme String polls ticks (power_on l))))"
  using polarity_inv_program_ino [of polls ticks l]
    polarity_inv_program_readme [of String polls ticks l]
  by (simp add: polarity_inv_def signal_actuatorState)

theorem relay_follows_decisions_witness:
  "(\<exists>b. program_ino [True]
         [\<lparr>lost = False, connects = [True],
           inbound = [(''home/room1/light1'', ''1'', CHR ''x''),
                      (''home/room1/light1'', '''', CHR ''x'')],
           temperature = NaN\<rparr>] (power_on HIGH) = Inr b
       \<and> trace b = [PinMode OUTPUT, DigitalWrite HIGH, Delay 10, WiFiBegin, WiFiStatus True,
            SetServer, SetCallback, Connect True, Subscribe ''home/room1/light1'',
            Deliver ''home/room1/light1'' ''1'' (CHR ''x''), DigitalWrite LOW,
            Deliver ''home/room1/light1'' '''' (CHR ''x''), DigitalWrite HIGH]
       \<and> polarity_run decision_ino (trace b) = Some None
       \<and> last_decision decision_ino (trace b) = Some Off
       \<and> relay b = HIGH)
   \<and> (\<exists>b. program_readme String_float [True]
         [\<lparr>lost = False, connects = [True],
           inbound = [(''home/room1/light'', ''OFF'', CHR ''x'')],
           temperature = Fin 15\<rparr>] (power_on HIGH) = Inr b
       \<and> polarity_run decision_readme (trace b) = Some None
       \<and> last_decision decision_readme (trace b) = Some On
       \<and> relay b = LOW)"
proof -
  let ?ti = "[\<lparr>lost = False, connects = [True],
           inbound = [(''home/room1/light1'', ''1'', CHR ''x''),
                      (''home/room1/light1'', '''', CHR ''x'')],
           temperature = NaN\<rparr>]"
  let ?tr = "[\<lparr>lost = False, connects = [True],
           inbound = [(''home/room1/light'', ''OFF'', CHR ''x'')],
           temperature = Fin 15\<rparr>]"
  obtain b where run: "program_ino [True] ?ti (power_on HIGH) = Inr b"
    and t: "trace b = [PinMode OUTPUT, DigitalWrite HIGH, Delay 10, WiFiBegin, WiFiStatus True,
            SetServer, SetCallback, Connect True, Subscribe ''home/room1/light1'',
            Deliver ''home/room1/light1'' ''1'' (CHR ''x''), DigitalWrite LOW,
            Deliver ''home/room1/light1'' '''' (CHR ''x''), DigitalWrite HIGH]"
    and r: "relay b = HIGH"
    by (simp add: run_ino)
  obtain c where runc: "program_readme String_float [True] ?tr (power_on HIGH) = Inr c"
    and rc: "relay c = LOW"
    by (simp add: run_readme)
  from relay_follows_decisions [where polls = "[True]" and ticks = ?ti and l = HIGH] run r
  have 1: "polarity_run decision_ino (trace b) = Some None"
    and 2: "last_decision decision_ino (trace b) = Some Off"
    by (simp_all add: actuatorState_def)
  from relay_follows_decisions
    [where polls = "[True]" and ticks = ?tr and l = HIGH and String = String_float] runc rc
  have 3: "polarity_run decision_readme (trace c) = Some None"
    and 4: "last_decision decision_readme (trace c) = Some On"
    by (simp_all add: actuatorState_def)
  from run t r 1 2 runc rc 3 4 show ?thesis by blast
qed

section \<open>Connectivity\<close>

text \<open>
  What the connectivity check refuses: a session opened before the join has succeeded,
  a message delivered in a session whose subscription has not been issued, and a message
  delivered after the session was lost.
\<close>

lemma spec_connectivity_examples:
  "spec_connectivity_run T [WiFiBegin, WiFiStatus False, Connect True] = None"
  "spec_connectivity_run T [WiFiBegin, WiFiStatus True, Connect True, Deliver t p z] = None"
  "spec_connectivity_run T [WiFiBegin, WiFiStatus True, Connect True, Subscribe T,
     SessionLost, Deliver t p z] = None"
  "spec_connectivity_run T [WiFiBegin, WiFiStatus True, Connect False, Delay 5000]
     = Some NetworkJoined"
  "spec_connectivity_run T [WiFiBegin, WiFiStatus True, Connect True, Subscribe T,
     Deliver t p z] = Some Ready"
  by (simp_all add: spec_connectivity_run_def)

lemma joining_inv_begin:
  "joining_inv T (emit WiFiBegin (delay 10 (digitalWrite HIGH (pinMode OUTPUT (power_on l)))))"
  by (simp add: joining_inv_def spec_connectivity_run_def power_on_def board_ops)

lemma setup_wifi_session:
  assumes "joining_inv T (emit WiFiBegin (delay 10 b))"
  shows "case setup_wifi d polls b of
           Inr b' \<Rightarrow> session_inv T b' \<and> \<not> connected b'
         | Inl e \<Rightarrow> joining_inv T (board_of (Inl e))"
  unfolding setup_wifi_def
proof (rule wait_connected_invariant2
    [where I = "joining_inv T" and J = "\<lambda>b'. session_inv T b' \<and> \<not> connected b'", OF _ _ assms])
  fix b1 :: board assume a: "joining_inv T b1"
  then show "session_inv T (emit (WiFiStatus True) (b1\<lparr>wifi := True\<rparr>))
      \<and> \<not> connected (emit (WiFiStatus True) (b1\<lparr>wifi := True\<rparr>))"
    by (simp add: joining_inv_def session_inv_def spec_connectivity_run_def board_ops)
  from a show "joining_inv T (delay d (emit (WiFiStatus False) (b1\<lparr>wifi := False\<rparr>)))"
    by (simp add: joining_inv_def spec_connectivity_run_def board_ops)
qed

lemma setup_ino_session:
  "case setup_ino polls (power_on l) of
      Inr b' \<Rightarrow> session_inv T b' \<and> \<not> connected b'
    | Inl e \<Rightarrow> joining_inv T (board_of (Inl e))"
proof -
  let ?b0 = "digitalWrite HIGH (pinMode OUTPUT (power_on l))"
  note w = setup_wifi_session [OF joining_inv_begin, where d = 500 and polls = polls and T = T and l1 = l]
  show ?thesis
  proof (cases "setup_wifi 500 polls ?b0" rule: outcome_cases)
    case (1 b1)
    with w have "session_inv T b1 \<and> \<not> connected b1" by simp
    then have "session_inv T (emit SetCallback (emit SetServer b1))
        \<and> \<not> connected (emit SetCallback (emit SetServer b1))"
      by (simp add: session_inv_def spec_connectivity_run_def board_ops)
    with 1 show ?thesis by (simp add: setup_ino_def)
  next
    case (2 b1)
    with w show ?thesis by (simp add: setup_ino_def)
  qed
qed

lemma session_inv_reconnect:
  "session_inv T b \<Longrightarrow> session_inv T (board_of (reconnect T cs b))"
proof (rule reconnect_invariant [where I = "session_inv T"])
  fix b1 :: board assume a: "session_inv T b1" and n: "\<not> connected b1"
  from a n show "session_inv T (client_subscribe T (client_connect True b1))"
    by (simp add: session_inv_def spec_connectivity_run_def board_ops)
  from a n show "session_inv T (delay 5000 (client_connect False b1))"
    by (simp add: session_inv_def spec_connectivity_run_def board_ops)
qed

lemma session_inv_callback_ino:
  "session_inv T b \<Longrightarrow> connected b \<Longrightarrow>
   session_inv T (callback_ino t p z (emit (Deliver t p z) b))"
  by (simp add: session_inv_def spec_connectivity_run_def callback_ino_def board_ops)

lemma session_inv_session_lost: "session_inv T b \<Longrightarrow> session_inv T (session_lost b)"
  by (simp add: session_inv_def spec_connectivity_run_def board_ops)

lemma session_inv_loop_ino:
  assumes "session_inv ''home/room1/light1'' b"
  shows "session_inv ''home/room1/light1'' (board_of (loop_ino i b))"
proof -
  let ?T = "''home/room1/light1''"
  let ?r = "if \<not> connected b then reconnect_ino (connects i) b else Inr b"
  have r: "session_inv ?T (board_of ?r)"
    using assms by (simp add: reconnect_ino_def session_inv_reconnect)
  show ?thesis
  proof (cases ?r rule: outcome_cases)
    case (1 b1)
    with r have "session_inv ?T b1" by simp
    then have "session_inv ?T (client_loop callback_ino (inbound i) b1)"
      by (rule client_loop_invariant [rotated]) (rule session_inv_callback_ino)
    with 1 show ?thesis by (simp add: loop_ino_def)
  next
    case (2 b1)
    with r show ?thesis by (simp add: loop_ino_def)
  qed
qed

text \<open>
  C4: in every run of the sketch from power-on, returned or still waiting in a blocking
  loop, the trace is accepted by the connectivity state machine of the spec and the
  machine stands where the board's flags say: before NetworkJoined exactly as long as no
  status poll has reported the join, and Ready exactly when the broker session is open.
  So a session is opened only after the join has succeeded, a failed poll or a failed
  \<^verbatim>\<open>client.connect\<close> leaves the state below Ready, a lost session falls back to
  NetworkJoined, and Ready is entered only through the subscription that follows each
  newly opened session; the topic is subscribed exactly while the session is open.
\<close>

theorem ready_needs_join_and_session:
  "spec_connectivity_run ''home/room1/light1''
       (trace (board_of (program_ino polls ticks (power_on l))))
     = Some (connectivityState (board_of (program_ino polls ticks (power_on l))))
   \<and> (connectivityState (board_of (program_ino polls ticks (power_on l))) = JoiningNetwork)
       = (True \<notin> set polls)
   \<and> (connectivityState (board_of (program_ino polls ticks (power_on l))) = Ready)
       = connected (board_of (program_ino polls ticks (power_on l)))
   \<and> subscribed (board_of (program_ino polls ticks (power_on l)))
       = (if connected (board_of (program_ino polls ticks (power_on l)))
          then [''home/room1/light1''] else [])"
proof (cases "setup_ino polls (power_on l)" rule: outcome_cases)
  case (1 b1)
  let ?T = "''home/room1/light1''"
  from 1 have p: "True \<in> set polls"
    using setup_ino_returns_iff [of polls "power_on l"] by auto
  from setup_ino_session [where polls = polls and l = l and T = ?T] 1 have "session_inv ?T b1" by simp
  then have "session_inv ?T (board_of (run_ticks loop_ino ticks b1))"
    by (rule run_ticks_invariant [rotated 2])
      (simp_all add: session_inv_loop_ino session_inv_session_lost)
  with 1 p show ?thesis
    by (simp add: program_ino_def session_inv_def connectivityState_def)
next
  case (2 b1)
  let ?T = "''home/room1/light1''"
  from 2 have p: "True \<notin> set polls"
    using setup_ino_returns_iff [of polls "power_on l"] by auto
  from setup_ino_session [where polls = polls and l = l and T = ?T] 2 have "joining_inv ?T b1" by simp
  with 2 p show ?thesis
    by (simp add: program_ino_def joining_inv_def connectivityState_def)
qed

text \<open>
  Four runs: the join still pending; the join done and every \<^verbatim>\<open>client.connect\<close>
  failing; a session opened at the second attempt and a message delivered; a session
  lost and the next \<^verbatim>\<open>client.connect\<close> failing.
\<close>

theorem ready_needs_join_and_session_witness:
  "connectivityState (board_of (program_ino [False, False] [] (power_on LOW))) = JoiningNetwork
   \<and> connectivityState (board_of (program_ino [True]
        [\<lparr>lost = False, connects = [False, False], inbound = [], temperature = NaN\<rparr>]
        (power_on LOW))) = NetworkJoined
   \<and> spec_connectivity_run ''home/room1/light1''
        (trace (board_of (program_ino [True]
          [\<lparr>lost = False, connects = [False, False], inbound = [], temperature = NaN\<rparr>]
          (power_on LOW)))) = Some NetworkJoined
   \<and> (\<exists>b. program_ino [False, True]
         [\<lparr>lost = False, connects = [False, True],
           inbound = [(''home/room1/light1'', ''1'', CHR ''x'')], temperature = NaN\<rparr>]
         (power_on LOW) = Inr b
       \<and> trace b = [PinMode OUTPUT, DigitalWrite HIGH, Delay 10, WiFiBegin, WiFiStatus False,
            Delay 500, WiFiStatus True, SetServer, SetCallback,
            Connect False, Delay 5000, Connect True, Subscribe ''home/room1/light1'',
            Deliver ''home/room1/light1'' ''1'' (CHR ''x''), DigitalWrite LOW]
       \<and> spec_connectivity_run ''home/room1/light1'' (trace b) = Some Ready
       \<and> subscribed b = [''home/room1/light1''])
   \<and> (\<exists>b. program_ino [True]
         [\<lparr>lost = False, connects = [True], inbound = [], temperature = NaN\<rparr>,
          \<lparr>lost = True, connects = [False], inbound = [], temperature = NaN\<rparr>]
         (power_on LOW) = Inl (NoReturn b)
       \<and> trace b = [PinMode OUTPUT, DigitalWrite HIGH, Delay 10, WiFiBegin, WiFiStatus True,
            SetServer, SetCallback, Connect True, Subscribe ''home/room1/light1'',
            SessionLost, Connect False, Delay 5000]
       \<and> spec_connectivity_run ''home/room1/light1'' (trace b) = Some NetworkJoined
       \<and> subscribed b = [])"
proof -
  let ?f = "[\<lparr>lost = False, connects = [False, False], inbound = [], temperature = NaN\<rparr>]"
  let ?s = "[\<lparr>lost = False, connects = [False, True],
           inbound = [(''home/room1/light1'', ''1'', CHR ''x'')], temperature = NaN\<rparr>]"
  let ?l = "[\<lparr>lost = False, connects = [True], inbound = [], temperature = NaN\<rparr>,
          \<lparr>lost = True, connects = [False], inbound = [], temperature = NaN\<rparr>]"
  have 1: "connectivityState (board_of (program_ino [False, False] [] (power_on LOW)))
      = JoiningNetwork"
    using ready_needs_join_and_session [where polls = "[False, False]" and ticks = "[]" and l = LOW]
    by simp
  obtain bf where f: "program_ino [True] ?f (power_on LOW) = Inl (NoReturn bf)"
    and cf: "\<not> connected bf" and wf: "wifi bf"
    by (simp add: run_ino)
  from ready_needs_join_and_session [where polls = "[True]" and ticks = ?f and l = LOW] f cf wf
  have 2: "connectivityState (board_of (program_ino [True] ?f (power_on LOW))) = NetworkJoined"
    and 3: "spec_connectivity_run ''home/room1/light1''
        (trace (board_of (program_ino [True] ?f (power_on LOW)))) = Some NetworkJoined"
    by (simp_all add: connectivityState_def)
  obtain bs where s: "program_ino [False, True] ?s (power_on LOW) = Inr bs"
    and ts: "trace bs = [PinMode OUTPUT, DigitalWrite HIGH, Delay 10, WiFiBegin, WiFiStatus False,
            Delay 500, WiFiStatus True, SetServer, SetCallback,
            Connect False, Delay 5000, Connect True, Subscribe ''home/room1/light1'',
            Deliver ''home/room1/light1'' ''1'' (CHR ''x''), DigitalWrite LOW]"
    and cs: "connected bs" and ws: "wifi bs"
    by (simp add: run_ino)
  from ready_needs_join_and_session [where polls = "[False, True]" and ticks = ?s and l = LOW]
    s cs ws
  have 4: "spec_connectivity_run ''home/room1/light1'' (trace bs) = Some Ready"
    and 5: "subscribed bs = [''home/room1/light1'']"
    by (simp_all add: connectivityState_def)
  obtain bl where l: "program_ino [True] ?l (power_on LOW) = Inl (NoReturn bl)"
    and tl: "trace bl = [PinMode OUTPUT, DigitalWrite HIGH, Delay 10, WiFiBegin, WiFiStatus True,
            SetServer, SetCallback, Connect True, Subscribe ''home/room1/light1'',
            SessionLost, Connect False, Delay 5000]"
    and cl: "\<not> connected bl" and wl: "wifi bl"
    by (simp add: run_ino)
  from ready_needs_join_and_session [where polls = "[True]" and ticks = ?l and l = LOW] l cl wl
  have 6: "spec_connectivity_run ''home/room1/light1'' (trace bl) = Some NetworkJoined"
    and 7: "subscribed bl = []"
    by (simp_all add: connectivityState_def)
  from 1 2 3 s ts 4 5 l tl 6 7 show ?thesis by blast
qed

end
